theory Spec2Isabelle
  imports Main "HOL-Library.Word"
begin

section \<open>Strings, paths and instants\<close>

text \<open>
  Go strings are byte strings: \<^typ>\<open>string\<close>. The functions of \<open>strings\<close> and
  \<open>path/filepath\<close> that the services call are written out here for a Unix host
  (separator \<open>/\<close>), following the documented behaviour of the Go standard library.
\<close>

type_synonym path = string

text \<open>\<open>strings.HasPrefix s p\<close>, \<open>strings.TrimPrefix s p\<close>, \<open>strings.Contains s sub\<close>.\<close>

fun HasPrefix :: "string \<Rightarrow> string \<Rightarrow> bool" where
  "HasPrefix s [] = True"
| "HasPrefix [] (p # ps) = False"
| "HasPrefix (x # xs) (p # ps) = (x = p \<and> HasPrefix xs ps)"

definition TrimPrefix :: "string \<Rightarrow> string \<Rightarrow> string" where
  "TrimPrefix s p = (if HasPrefix s p then drop (length p) s else s)"

fun Contains :: "string \<Rightarrow> string \<Rightarrow> bool" where
  "Contains [] sub = (sub = [])"
| "Contains (x # xs) sub = (HasPrefix (x # xs) sub \<or> Contains xs sub)"

text \<open>The elements of a path between its separators, and their concatenation.\<close>

fun split_sep :: "string \<Rightarrow> string list" where
  "split_sep [] = [[]]"
| "split_sep (x # xs) =
     (if x = CHR ''/'' then [] # split_sep xs
      else (x # hd (split_sep xs)) # tl (split_sep xs))"

fun join_sep :: "string list \<Rightarrow> string" where
  "join_sep [] = []"
| "join_sep [e] = e"
| "join_sep (e # es) = e @ ''/'' @ join_sep es"

text \<open>
  \<open>filepath.Clean\<close>: empty and \<open>.\<close> elements are dropped, \<open>..\<close> removes the element
  before it, is dropped at the root, and is kept at the start of a relative path;
  the empty result is \<open>.\<close>.
\<close>

definition clean_elem :: "bool \<Rightarrow> string list \<Rightarrow> string \<Rightarrow> string list" where
  "clean_elem rooted out e =
     (if e = [] \<or> e = ''.'' then out
      else if e = ''..'' then
        (if out \<noteq> [] \<and> last out \<noteq> ''..'' then butlast out
         else if rooted then out
         else out @ [''..''])
      else out @ [e])"

definition clean_elems :: "path \<Rightarrow> string list" where
  "clean_elems p = foldl (clean_elem (HasPrefix p ''/'')) [] (split_sep p)"

definition Clean :: "path \<Rightarrow> path" where
  "Clean p =
     (let s = (if HasPrefix p ''/'' then ''/'' else []) @ join_sep (clean_elems p)
      in if s = [] then ''.'' else s)"

definition IsAbs :: "path \<Rightarrow> bool" where
  "IsAbs p = HasPrefix p ''/''"

text \<open>\<open>filepath.Join\<close> of two elements: empty elements are ignored, the rest is cleaned.\<close>

definition Join :: "path \<Rightarrow> path \<Rightarrow> path" where
  "Join a b =
     (if a = [] \<and> b = [] then []
      else if a = [] then Clean b
      else if b = [] then Clean a
      else Clean (a @ ''/'' @ b))"

text \<open>
  \<open>filepath.Abs\<close>: an absolute path is cleaned; a relative one is joined to the working
  directory, and the call fails when the working directory cannot be read (\<open>None\<close>).
\<close>

definition Abs :: "path option \<Rightarrow> path \<Rightarrow> path option" where
  "Abs wd p =
     (if IsAbs p then Some (Clean p)
      else (case wd of None \<Rightarrow> None | Some d \<Rightarrow> Some (Join d p)))"

text \<open>
  \<open>filepath.Ext\<close>: the suffix from the last dot of the last element, and the ASCII part
  of \<open>strings.ToLower\<close> (bytes outside \<open>A\<close>..\<open>Z\<close> are kept).
\<close>

definition Ext :: "path \<Rightarrow> string" where
  "Ext p =
     (let r = rev p;
          a = takeWhile (\<lambda>c. c \<noteq> CHR ''.'' \<and> c \<noteq> CHR ''/'') r;
          rest = drop (length a) r
      in case rest of
           [] \<Rightarrow> []
         | c # _ \<Rightarrow> if c = CHR ''.'' then CHR ''.'' # rev a else [])"

definition lower_char :: "char \<Rightarrow> char" where
  "lower_char c =
     (let n = (of_char c :: nat)
      in if 65 \<le> n \<and> n \<le> 90 then char_of (n + 32) else c)"

definition ToLower :: "string \<Rightarrow> string" where
  "ToLower s = map lower_char s"

text \<open>
  An instant (\<open>time.Time\<close>, always in UTC in these services) is a number of nanoseconds
  since the Unix epoch. \<open>format_date\<close> is \<open>Format("2006-01-02")\<close> and \<open>format_clock\<close> is
  \<open>Format("15:04:05")\<close>; \<open>unix\<close> is \<open>time.Unix(sec, 0)\<close>. Decimal rendering is \<open>%d\<close>.
\<close>

type_synonym time = int

function show_digits :: "int \<Rightarrow> string" where
  "show_digits n =
     (if n < 10 then [char_of (48 + n)]
      else show_digits (n div 10) @ [char_of (48 + n mod 10)])"
  by pat_completeness auto
termination
  by (relation "measure nat") auto

declare show_digits.simps [simp del]

definition show_int :: "int \<Rightarrow> string" where
  "show_int i = (if i < 0 then ''-'' @ show_digits (- i) else show_digits i)"

definition pad_int :: "nat \<Rightarrow> int \<Rightarrow> string" where
  "pad_int w i =
     (let ds = show_digits \<bar>i\<bar>
      in (if i < 0 then ''-'' else []) @ replicate (w - length ds) CHR ''0'' @ ds)"

definition civil_from_days :: "int \<Rightarrow> int \<times> int \<times> int" where
  "civil_from_days days =
     (let z = days + 719468;
          era = z div 146097;
          doe = z - era * 146097;
          yoe = (doe - doe div 1460 + doe div 36524 - doe div 146096) div 365;
          doy = doe - (365 * yoe + yoe div 4 - yoe div 100);
          mp = (5 * doy + 2) div 153;
          d = doy - (153 * mp + 2) div 5 + 1;
          m = (if mp < 10 then mp + 3 else mp - 9);
          y = yoe + era * 400 + (if m \<le> 2 then 1 else 0)
      in (y, m, d))"

definition nanos_per_day :: int where
  "nanos_per_day = 86400 * 1000000000"

definition format_date :: "time \<Rightarrow> string" where
  "format_date t =
     (case civil_from_days (t div nanos_per_day) of
        (y, m, d) \<Rightarrow> pad_int 4 y @ ''-'' @ pad_int 2 m @ ''-'' @ pad_int 2 d)"

definition format_clock :: "time \<Rightarrow> string" where
  "format_clock t =
     (let s = (t div 1000000000) mod 86400
      in pad_int 2 (s div 3600) @ '':'' @ pad_int 2 ((s div 60) mod 60)
         @ '':'' @ pad_int 2 (s mod 60))"

definition unix :: "int \<Rightarrow> time" where
  "unix sec = sec * 1000000000"

section \<open>Data model\<close>

text \<open>
  The GORM models of \<open>internal/models\<close>, one record per table, with the columns the
  services read or write. \<open>uint\<close> keys are naturals, \<open>int64\<close> byte counts that meet
  untrusted sizes are 64-bit words, Go pointers that may be \<open>nil\<close> are options.
\<close>

record Upload =
  up_ID :: nat
  UUID :: string
  OriginalFilename :: string
  StoredPath :: path
  up_FileSize :: int
  FileHash :: string
  MimeType :: string
  UploadedAt :: time
  up_Status :: string
  DeletedAt :: "time option"

record Import =
  imp_ID :: nat
  imp_UploadID :: nat
  StartedAt :: time
  CompletedAt :: "time option"
  imp_Status :: string
  ProgressPercent :: int
  imp_ErrorMessage :: "string option"
  Stats :: string

record Extraction =
  ext_ID :: nat
  ext_UploadID :: nat
  FilePath :: path
  FileType :: string
  ext_FileSize :: "64 word"
  ExtractedAt :: time
  ext_Status :: string

record Conversation =
  conv_ID :: nat
  conv_UploadID :: nat
  ConversationID :: string
  Title :: "string option"
  CreatedAt :: time
  UpdatedAt :: time
  SourceFilePath :: path
  conv_MessageCount :: int

record Message =
  msg_ID :: nat
  msg_ConversationID :: nat
  MessageID :: "string option"
  Role :: string
  Content :: string
  Timestamp :: time
  MessageIndex :: nat
  msg_Metadata :: string

record Thread =
  thr_ID :: nat
  thr_ConversationID :: nat
  Date :: string
  thr_MessageCount :: int
  StartMessageID :: "nat option"
  EndMessageID :: "nat option"
  StartTimestamp :: time
  EndTimestamp :: time

text \<open>
  The store (\<open>database.DB\<close>) is the list of rows of each table, in insertion order. It
  is modelled as reliable: a query fails only when no row matches, a write only on a
  violated unique index. The file system is a map from paths to file contents.
\<close>

record db =
  uploads :: "Upload list"
  import_records :: "Import list"
  extractions :: "Extraction list"
  conversations :: "Conversation list"
  messages :: "Message list"
  threads :: "Thread list"

type_synonym fs = "path \<rightharpoonup> string"

record config =
  MaxFileSize :: int
  MaxExtractionSize :: "64 word"
  MaxExtractedFiles :: int
  UploadsDir :: path
  ExtractedDir :: path
  MessagesDir :: path

text \<open>A primary key is assigned by the store: one more than the largest key in the table.\<close>

definition next_id :: "nat list \<Rightarrow> nat" where
  "next_id ids = Suc (fold max ids 0)"

text \<open>
  \<open>DB.Save\<close> of a row: the row with the same primary key is replaced, and the row is
  inserted when there is none. The import table has no column that the store maintains
  itself. The conversation table has \<open>updated_at\<close>: GORM tracks a field of that name
  and sets it to the current time in every \<open>Save\<close>, whatever the caller put there;
  \<open>now\<close> is the clock at the time of the call.
\<close>

definition save_import :: "Import \<Rightarrow> db \<Rightarrow> db" where
  "save_import r d =
     (if imp_ID r \<in> set (map imp_ID (import_records d))
      then d\<lparr>import_records := map (\<lambda>i. if imp_ID i = imp_ID r then r else i) (import_records d)\<rparr>
      else d\<lparr>import_records := import_records d @ [r]\<rparr>)"

definition save_conversation :: "time \<Rightarrow> Conversation \<Rightarrow> db \<Rightarrow> db" where
  "save_conversation now r d =
     (let r' = r\<lparr>UpdatedAt := now\<rparr>
      in if conv_ID r \<in> set (map conv_ID (conversations d))
         then d\<lparr>conversations :=
                 map (\<lambda>c. if conv_ID c = conv_ID r then r' else c) (conversations d)\<rparr>
         else d\<lparr>conversations := conversations d @ [r']\<rparr>)"

section \<open>ArchiveExtractor: \<open>services/extraction.go\<close>\<close>

datatype path_error =
  ContainsDotDot | AbsoluteNotAllowed | AbsBaseFailed | AbsFileFailed | OutsideBase

text \<open>The first four statements of \<open>sanitizePath\<close>: the entry name as the checks see it.\<close>

definition sanitize_clean :: "string \<Rightarrow> string" where
  "sanitize_clean filePath =
     TrimPrefix (TrimPrefix (TrimPrefix (Clean filePath) ''/'') ''/'') [CHR 0x5C]"

definition sanitizePath :: "path option \<Rightarrow> string \<Rightarrow> path \<Rightarrow> path_error + path" where
  "sanitizePath wd filePath baseDir =
     (let cleaned = sanitize_clean filePath in
      if Contains cleaned ''..'' then Inl ContainsDotDot
      else if IsAbs cleaned then Inl AbsoluteNotAllowed
      else
        let fullPath = Join baseDir cleaned in
        case Abs wd baseDir of
          None \<Rightarrow> Inl AbsBaseFailed
        | Some baseAbs \<Rightarrow>
            (case Abs wd fullPath of
               None \<Rightarrow> Inl AbsFileFailed
             | Some fullAbs \<Rightarrow>
                 if \<not> HasPrefix fullAbs baseAbs then Inl OutsideBase
                 else Inr fullPath))"

text \<open>
  An archive entry (\<open>zip.File\<close>): its name and declared uncompressed size, both read
  from the untrusted archive, the bytes that reading it yields, and what \<open>extractFile\<close>
  meets on it: the copy completes, the destination cannot be created (or its directory,
  or the entry cannot be opened), or the copy fails after some bytes.
\<close>

datatype extract_outcome = Copied | NotCreated | CopyFailed nat

record zip_file =
  Name :: string
  UncompressedSize64 :: "64 word"
  Data :: string
  Outcome :: extract_outcome

definition extractFile :: "zip_file \<Rightarrow> path \<Rightarrow> fs \<Rightarrow> bool \<times> fs" where
  "extractFile file destPath files =
     (case Outcome file of
        Copied \<Rightarrow> (True, files(destPath \<mapsto> Data file))
      | NotCreated \<Rightarrow> (False, files)
      | CopyFailed n \<Rightarrow> (False, files(destPath \<mapsto> take n (Data file))))"

definition determineFileType :: "string \<Rightarrow> string" where
  "determineFileType filePath =
     (let ext = ToLower (Ext filePath) in
      if ext = ''.json'' \<and> (Contains filePath ''conversation'' \<or> Contains filePath ''chat''
            \<or> Contains filePath ''message'')
      then ''conversation''
      else if ext \<in> set [''.jpg'', ''.jpeg'', ''.png'', ''.gif'', ''.webp'', ''.mp3'',
                           ''.mp4'', ''.wav'', ''.pdf'']
      then ''media''
      else ''other'')"

text \<open>
  The state of the loop of \<open>ExtractUpload\<close>: its three local variables, the import row
  it keeps saving, the store and the extraction directory's file system.
\<close>

record extract_state =
  totalSize :: "64 word"
  fileCount :: int
  extractedFiles :: "Extraction list"
  importRecord :: Import
  est_db :: db
  est_fs :: fs

datatype extract_error =
  UploadNotFound | ImportNotFound | OpenZipFailed | MkdirFailed
  | MaxFilesExceeded | MaxSizeExceeded

datatype step = Continue extract_state | Abort extract_error extract_state

text \<open>The three statements that mark the import failed and save it.\<close>

definition fail_import :: "string \<Rightarrow> extract_state \<Rightarrow> extract_state" where
  "fail_import errorMsg st =
     (let r = (importRecord st)\<lparr>imp_Status := ''failed'', imp_ErrorMessage := Some errorMsg\<rparr>
      in st\<lparr>importRecord := r, est_db := save_import r (est_db st)\<rparr>)"

text \<open>
  One iteration of the loop over \<open>zipReader.File\<close>. The size check adds the \<open>int64\<close>
  total to the \<open>uint64\<close> declared size and compares with \<open>uint64(MaxExtractionSize)\<close>:
  64-bit addition, which wraps, and an unsigned comparison. \<open>clock\<close> is \<open>time.Now()\<close>
  at this iteration and \<open>n\<close> is \<open>len(zipReader.File)\<close>; the progress quotient is taken
  exactly.
\<close>

definition extract_step ::
  "config \<Rightarrow> path option \<Rightarrow> time \<Rightarrow> nat \<Rightarrow> path \<Rightarrow> nat \<Rightarrow> extract_state \<Rightarrow> zip_file \<Rightarrow> step" where
  "extract_step cfg wd clock uploadID extractDir n st file =
     (if fileCount st \<ge> MaxExtractedFiles cfg then
        Abort MaxFilesExceeded
          (fail_import (''exceeded max extracted files: '' @ show_int (MaxExtractedFiles cfg)) st)
      else case sanitizePath wd (Name file) extractDir of
        Inl e \<Rightarrow> Continue st
      | Inr sanitizedPath \<Rightarrow>
          if MaxExtractionSize cfg < totalSize st + UncompressedSize64 file then
            Abort MaxSizeExceeded
              (fail_import (''exceeded max extraction size: ''
                              @ show_int (sint (MaxExtractionSize cfg))) st)
          else case extractFile file sanitizedPath (est_fs st) of
            (False, files') \<Rightarrow> Continue (st\<lparr>est_fs := files'\<rparr>)
          | (True, files') \<Rightarrow>
              let extraction = \<lparr>ext_ID = 0, ext_UploadID = uploadID,
                                 FilePath = sanitizedPath,
                                 FileType = determineFileType (Name file),
                                 ext_FileSize = UncompressedSize64 file,
                                 ExtractedAt = clock, ext_Status = ''extracted''\<rparr>;
                  count = fileCount st + 1;
                  r = (importRecord st)\<lparr>ProgressPercent := 10 + (count * 30) div int n\<rparr>
              in Continue (st\<lparr>totalSize := totalSize st + UncompressedSize64 file,
                               fileCount := count,
                               extractedFiles := extractedFiles st @ [extraction],
                               importRecord := r,
                               est_db := save_import r (est_db st),
                               est_fs := files'\<rparr>))"

fun extract_files ::
  "config \<Rightarrow> path option \<Rightarrow> time \<Rightarrow> nat \<Rightarrow> path \<Rightarrow> nat \<Rightarrow> zip_file list \<Rightarrow> extract_state
     \<Rightarrow> extract_error option \<times> extract_state" where
  "extract_files cfg wd clock uploadID extractDir n [] st = (None, st)"
| "extract_files cfg wd clock uploadID extractDir n (file # files) st =
     (case extract_step cfg wd clock uploadID extractDir n st file of
        Abort e st' \<Rightarrow> (Some e, st')
      | Continue st' \<Rightarrow> extract_files cfg wd clock uploadID extractDir n files st')"

text \<open>
  \<open>CreateInBatches\<close> of the extraction rows: each row gets the next primary key.
\<close>

definition create_extractions :: "Extraction list \<Rightarrow> db \<Rightarrow> db" where
  "create_extractions xs d =
     (let k = next_id (map ext_ID (extractions d))
      in d\<lparr>extractions := extractions d
             @ map (\<lambda>(i, x). x\<lparr>ext_ID := k + i\<rparr>) (enumerate 0 xs)\<rparr>)"

text \<open>
  \<open>ExtractUpload\<close>. \<open>archive\<close> is what \<open>zip.OpenReader\<close> returns for the stored path
  (\<open>None\<close> when it fails; the message then saved also carries the text of that
  error, which is left out) and \<open>mkdir_ok\<close> whether \<open>os.MkdirAll\<close> succeeds.
\<close>

definition ExtractUpload ::
  "config \<Rightarrow> path option \<Rightarrow> time \<Rightarrow> (path \<Rightarrow> zip_file list option) \<Rightarrow> bool \<Rightarrow> nat \<Rightarrow> db \<times> fs
     \<Rightarrow> extract_error option \<times> db \<times> fs" where
  "ExtractUpload cfg wd clock archive mkdir_ok uploadID w =
     (case w of (d, files) \<Rightarrow>
      case find (\<lambda>u. up_ID u = uploadID \<and> DeletedAt u = None) (uploads d) of
        None \<Rightarrow> (Some UploadNotFound, d, files)
      | Some upload \<Rightarrow>
      (case find (\<lambda>i. imp_UploadID i = uploadID) (import_records d) of
        None \<Rightarrow> (Some ImportNotFound, d, files)
      | Some found \<Rightarrow>
          let r = found\<lparr>imp_Status := ''extracting'', ProgressPercent := 10\<rparr>;
              d1 = save_import r d
          in case archive (StoredPath upload) of
               None \<Rightarrow>
                 (Some OpenZipFailed,
                  save_import (r\<lparr>imp_Status := ''failed'',
                                  imp_ErrorMessage := Some ''failed to open ZIP file''\<rparr>) d1,
                  files)
             | Some zfiles \<Rightarrow>
                 let extractDir = Join (ExtractedDir cfg) (UUID upload) in
                 if \<not> mkdir_ok then (Some MkdirFailed, d1, files)
                 else
                   (case extract_files cfg wd clock uploadID extractDir (length zfiles) zfiles
                           \<lparr>totalSize = 0, fileCount = 0, extractedFiles = [],
                            importRecord = r, est_db = d1, est_fs = files\<rparr> of
                      (Some e, st) \<Rightarrow> (Some e, est_db st, est_fs st)
                    | (None, st) \<Rightarrow>
                        let d2 = create_extractions (extractedFiles st) (est_db st);
                            r2 = (importRecord st)\<lparr>imp_Status := ''parsing'',
                                                   ProgressPercent := 40\<rparr>
                        in (None, save_import r2 d2, est_fs st))))"

text \<open>
  The state a step leaves, whether the loop goes on or stops.
\<close>

definition step_state :: "step \<Rightarrow> extract_state" where
  "step_state s = (case s of Continue st \<Rightarrow> st | Abort e st \<Rightarrow> st)"

text \<open>
  The specification's test on a normalised entry name, in its words: the name has a
  parent-directory segment, or is an absolute path, or, joined with the destination
  directory and resolved, does not remain strictly inside that directory. A path is
  \<open>within\<close> a directory when it is absolute and its elements start with the elements
  of the directory, and strictly \<open>inside\<close> it when it is moreover not the directory
  itself. \<open>leaves\<close> is the same test with \<open>within\<close> in the place of \<open>inside\<close>: the
  directory itself does not count as outside.
\<close>

definition has_parent_segment :: "path \<Rightarrow> bool" where
  "has_parent_segment p = (''..'' \<in> set (split_sep p))"

definition within :: "path \<Rightarrow> path \<Rightarrow> bool" where
  "within base p =
     (IsAbs p \<and> take (length (clean_elems base)) (clean_elems p) = clean_elems base)"

definition inside :: "path \<Rightarrow> path \<Rightarrow> bool" where
  "inside base p = (within base p \<and> clean_elems p \<noteq> clean_elems base)"

definition escapes :: "path \<Rightarrow> string \<Rightarrow> bool" where
  "escapes base c = (has_parent_segment c \<or> IsAbs c \<or> \<not> inside base (Join base c))"

definition leaves :: "path \<Rightarrow> string \<Rightarrow> bool" where
  "leaves base c = (has_parent_segment c \<or> IsAbs c \<or> \<not> within base (Join base c))"

section \<open>ExportParser: \<open>services/parser.go\<close>\<close>

text \<open>
  The decoded export. Of a message's metadata the parser reads \<open>create_time\<close> when it
  is a number (\<open>MetaCreateTime\<close>, already converted to \<open>int64\<close> seconds) and serialises
  the whole map (\<open>MetadataJSON\<close>, empty when \<open>json.Marshal\<close> fails).
\<close>

record MessageData =
  md_ID :: string
  AuthorRole :: string
  Parts :: "string list"
  md_Status :: string
  MetaCreateTime :: "int option"
  MetadataJSON :: string

record MessageNode =
  node_ID :: string
  node_Message :: "MessageData option"
  Parent :: "string option"
  Children :: "string list"

type_synonym mapping = "string \<rightharpoonup> MessageNode"

record ChatGPTConversation =
  cg_Title :: string
  cg_CreateTime :: int
  cg_UpdateTime :: int
  Mapping :: mapping

text \<open>
  Go leaves the order of a \<open>range\<close> over a map unspecified, and it may differ from one
  loop to the next. Every such loop of the model takes the order in which it meets the
  keys as an argument; \<open>range_order m ks\<close> says that \<open>ks\<close> is one of the possible orders.
\<close>

definition range_order :: "('k \<rightharpoonup> 'v) \<Rightarrow> 'k list \<Rightarrow> bool" where
  "range_order m ks = (distinct ks \<and> set ks = dom m)"

text \<open>The content parts joined by a blank line.\<close>

fun join_parts :: "string list \<Rightarrow> string" where
  "join_parts [] = []"
| "join_parts [p] = p"
| "join_parts (p # ps) = p @ ''\<newline>\<newline>'' @ join_parts ps"

text \<open>
  The record built for a finished message. \<open>now\<close> is \<open>time.Now()\<close> as read while the
  message of that index is built; it is the timestamp unless the metadata has one.
\<close>

definition new_message :: "(nat \<Rightarrow> time) \<Rightarrow> nat \<Rightarrow> nat \<Rightarrow> MessageData \<Rightarrow> Message" where
  "new_message now conversationID index msg =
     \<lparr>msg_ID = 0, msg_ConversationID = conversationID, MessageID = Some (md_ID msg),
      Role = AuthorRole msg, Content = join_parts (Parts msg),
      Timestamp = (case MetaCreateTime msg of Some sec \<Rightarrow> unix sec | None \<Rightarrow> now index),
      MessageIndex = index, msg_Metadata = MetadataJSON msg\<rparr>"

text \<open>
  \<open>traverseMessages\<close> is recursive in the source and has no other bound than the call
  stack. The first argument is the depth of recursion still available: \<open>None\<close> means
  the call needs more, and a call that is \<open>None\<close> at every depth never returns.
  The pair is \<open>(*messages, *index)\<close>; \<open>traverse_children\<close> is the loop over
  \<open>node.Children\<close>.
\<close>

fun traverseMessages ::
  "nat \<Rightarrow> (nat \<Rightarrow> time) \<Rightarrow> mapping \<Rightarrow> string \<Rightarrow> nat \<Rightarrow> Message list \<times> nat
     \<Rightarrow> (Message list \<times> nat) option"
and traverse_children ::
  "nat \<Rightarrow> (nat \<Rightarrow> time) \<Rightarrow> mapping \<Rightarrow> string list \<Rightarrow> nat \<Rightarrow> Message list \<times> nat
     \<Rightarrow> (Message list \<times> nat) option" where
  "traverseMessages 0 now m nodeID conversationID st = None"
| "traverseMessages (Suc depth) now m nodeID conversationID st =
     (case m nodeID of
        None \<Rightarrow> Some st
      | Some node \<Rightarrow>
          (case node_Message node of
             None \<Rightarrow> Some st
           | Some msg \<Rightarrow>
               if md_Status msg \<noteq> ''finished_successfully''
               then traverse_children depth now m (Children node) conversationID st
               else traverse_children depth now m (Children node) conversationID
                      (fst st @ [new_message now conversationID (snd st) msg], Suc (snd st))))"
| "traverse_children depth now m [] conversationID st = Some st"
| "traverse_children depth now m (childID # rest) conversationID st =
     (case traverseMessages depth now m childID conversationID st of
        None \<Rightarrow> None
      | Some st' \<Rightarrow> traverse_children depth now m rest conversationID st')"

text \<open>
  \<open>findRootMessageID\<close>: the first parentless node that the first loop meets, else the
  first key that the second loop meets, else the empty string.
\<close>

definition parentless :: "mapping \<Rightarrow> string \<Rightarrow> bool" where
  "parentless m k = (case m k of None \<Rightarrow> False | Some node \<Rightarrow> Parent node = None)"

definition findRootMessageID :: "string list \<Rightarrow> string list \<Rightarrow> mapping \<Rightarrow> string" where
  "findRootMessageID ks ks' m =
     (case filter (parentless m) ks of
        k # _ \<Rightarrow> k
      | [] \<Rightarrow> (case ks' of k # _ \<Rightarrow> k | [] \<Rightarrow> []))"

text \<open>
  \<open>processMessages\<close>: the root is the first parentless node its own loop meets; the
  traversal starts there with no messages and index 0, and the result is sorted by
  index.
\<close>

definition processMessages ::
  "nat \<Rightarrow> (nat \<Rightarrow> time) \<Rightarrow> string list \<Rightarrow> mapping \<Rightarrow> nat \<Rightarrow> Message list option" where
  "processMessages depth now ks m conversationID =
     (let rootID = (case filter (parentless m) ks of k # _ \<Rightarrow> k | [] \<Rightarrow> [])
      in if rootID = [] then Some []
         else case traverseMessages depth now m rootID conversationID ([], 0) of
                None \<Rightarrow> None
              | Some st \<Rightarrow> Some (sort_key MessageIndex (fst st)))"

text \<open>
  \<open>extractUserMessagesByDate\<close>. The first loop groups the user messages by date, the
  second (over the map, in the order \<open>ks\<close>) writes one file per date: the new block,
  then a blank line and the file's former content when it had any. \<open>can_write\<close> tells
  whether \<open>os.WriteFile\<close> succeeds on a path; the loop stops at the first failure.
\<close>

definition userMessagesByDate :: "Message list \<Rightarrow> string \<Rightarrow> Message list" where
  "userMessagesByDate msgs date =
     filter (\<lambda>msg. Role msg = ''user'' \<and> format_date (Timestamp msg) = date) msgs"

definition message_block :: "Message \<Rightarrow> string" where
  "message_block msg =
     ''## '' @ format_clock (Timestamp msg) @ ''\<newline>\<newline>'' @ Content msg
       @ ''\<newline>\<newline>---\<newline>\<newline>''"

definition date_file_content :: "string \<Rightarrow> Message list \<Rightarrow> string \<Rightarrow> string" where
  "date_file_content date msgs existingContent =
     (let content = ''# Messages for '' @ date @ ''\<newline>\<newline>''
                      @ concat (map message_block (sort_key Timestamp msgs))
      in if length existingContent > 0
         then content @ ''\<newline>\<newline>'' @ existingContent
         else content)"

fun write_date_files ::
  "config \<Rightarrow> (path \<Rightarrow> bool) \<Rightarrow> Message list \<Rightarrow> string list \<Rightarrow> fs \<Rightarrow> bool \<times> fs" where
  "write_date_files cfg can_write msgs [] files = (True, files)"
| "write_date_files cfg can_write msgs (date # dates) files =
     (let filePath = Join (MessagesDir cfg) (date @ ''.md'');
          existingContent = (case files filePath of None \<Rightarrow> [] | Some c \<Rightarrow> c)
      in if \<not> can_write filePath then (False, files)
         else write_date_files cfg can_write msgs dates
                (files(filePath \<mapsto>
                   date_file_content date (userMessagesByDate msgs date) existingContent)))"

definition user_dates :: "Message list \<Rightarrow> string list" where
  "user_dates msgs =
     remdups (map (\<lambda>msg. format_date (Timestamp msg)) (filter (\<lambda>msg. Role msg = ''user'') msgs))"

definition extractUserMessagesByDate ::
  "config \<Rightarrow> (path \<Rightarrow> bool) \<Rightarrow> string list \<Rightarrow> Message list \<Rightarrow> fs \<Rightarrow> bool \<times> fs" where
  "extractUserMessagesByDate cfg can_write ks msgs files =
     write_date_files cfg can_write msgs ks files"

text \<open>
  The rows of one \<open>CreateInBatches\<close> call get consecutive primary keys; the slices of
  1000 that the services pass are the \<open>batches\<close> of the list.
\<close>

function batches :: "'a list \<Rightarrow> 'a list list" where
  "batches xs = (if xs = [] then [] else take 1000 xs # batches (drop 1000 xs))"
  by pat_completeness auto
termination
  by (relation "measure length") auto

declare batches.simps [simp del]

definition create_messages :: "Message list \<Rightarrow> db \<Rightarrow> db" where
  "create_messages ms d =
     (let k = next_id (map msg_ID (messages d))
      in d\<lparr>messages := messages d
             @ map (\<lambda>(i, x). x\<lparr>msg_ID := k + i\<rparr>) (enumerate 0 ms)\<rparr>)"

definition create_conversation :: "Conversation \<Rightarrow> db \<Rightarrow> Conversation \<times> db" where
  "create_conversation c d =
     (let c' = c\<lparr>conv_ID := next_id (map conv_ID (conversations d))\<rparr>
      in (c', d\<lparr>conversations := conversations d @ [c']\<rparr>))"

text \<open>
  What one call of \<open>processConversation\<close> meets outside its arguments: the stack depth
  available, the clock, the orders of the map loops (the two of \<open>findRootMessageID\<close>,
  the one of \<open>processMessages\<close>, the one over the dates) and the writable paths;
  \<open>saved_at\<close> is the clock when the caller saves the row that the call returned.
\<close>

record parse_env =
  stack_depth :: nat
  clock_now :: "nat \<Rightarrow> time"
  root_order :: "string list"
  fallback_order :: "string list"
  messages_order :: "string list"
  dates_order :: "string list"
  writable :: "path \<Rightarrow> bool"
  saved_at :: time

text \<open>
  \<open>processConversation\<close>: \<open>None\<close> when the traversal does not return. The rows have
  no primary key before they are created; the messages handed to
  \<open>extractUserMessagesByDate\<close> are those of the traversal.
\<close>

definition processConversation ::
  "parse_env \<Rightarrow> config \<Rightarrow> ChatGPTConversation \<Rightarrow> nat \<Rightarrow> path \<Rightarrow> db \<times> fs
     \<Rightarrow> ((Conversation \<times> int) \<times> db \<times> fs) option" where
  "processConversation env cfg conv uploadID sourcePath w =
     (case w of (d, files) \<Rightarrow>
      let conversation =
            \<lparr>conv_ID = 0, conv_UploadID = uploadID,
             ConversationID = findRootMessageID (root_order env) (fallback_order env) (Mapping conv),
             Title = Some (cg_Title conv),
             CreatedAt = unix (cg_CreateTime conv), UpdatedAt = unix (cg_UpdateTime conv),
             SourceFilePath = sourcePath, conv_MessageCount = 0\<rparr>
      in case find (\<lambda>c. conv_UploadID c = uploadID
                          \<and> ConversationID c = ConversationID conversation) (conversations d) of
           Some existing \<Rightarrow> Some ((existing, conv_MessageCount existing), d, files)
         | None \<Rightarrow>
             (case create_conversation conversation d of (created, d1) \<Rightarrow>
              case processMessages (stack_depth env) (clock_now env) (messages_order env) (Mapping conv)
                     (conv_ID created) of
                None \<Rightarrow> None
              | Some msgs \<Rightarrow>
                  let d2 = fold create_messages (batches msgs) d1;
                      files' = snd (extractUserMessagesByDate cfg (writable env)
                                      (dates_order env) msgs files)
                  in Some ((created, int (length msgs)), d2, files')))"

text \<open>
  The body of the loop of \<open>parseConversationFile\<close> for one conversation: the count that
  \<open>processConversation\<close> returned is stored in the row it returned, and the row saved,
  also when it is a row that was there before.
\<close>

definition parse_conversation ::
  "parse_env \<Rightarrow> config \<Rightarrow> ChatGPTConversation \<Rightarrow> nat \<Rightarrow> path \<Rightarrow> db \<times> fs
     \<Rightarrow> (int \<times> db \<times> fs) option" where
  "parse_conversation env cfg conv uploadID filePath w =
     (case processConversation env cfg conv uploadID filePath w of
        None \<Rightarrow> None
      | Some ((convRecord, msgCount), d, files) \<Rightarrow>
          Some (msgCount,
                save_conversation (saved_at env) (convRecord\<lparr>conv_MessageCount := msgCount\<rparr>) d,
                files))"

section \<open>ThreadSegmenter: \<open>services/thread.go\<close>\<close>

datatype thread_error = ConversationMismatch | StartAfterEnd

text \<open>
  The query of \<open>createThreadsForConversation\<close>: the conversation's messages by
  ascending timestamp. \<open>sort.Slice\<close> and \<open>ORDER BY\<close> leave the order of equal
  timestamps open; the model keeps them in their former order.
\<close>

definition conversation_messages :: "db \<Rightarrow> nat \<Rightarrow> Message list" where
  "conversation_messages d conversationID =
     sort_key Timestamp (filter (\<lambda>msg. msg_ConversationID msg = conversationID) (messages d))"

definition messagesByDate :: "Message list \<Rightarrow> string \<Rightarrow> Message list" where
  "messagesByDate msgs date = filter (\<lambda>msg. format_date (Timestamp msg) = date) msgs"

definition thread_exists :: "db \<Rightarrow> nat \<Rightarrow> string \<Rightarrow> bool" where
  "thread_exists d conversationID date =
     (find (\<lambda>t. thr_ConversationID t = conversationID \<and> Date t = date) (threads d) \<noteq> None)"

definition new_thread :: "nat \<Rightarrow> string \<Rightarrow> Message list \<Rightarrow> Message \<Rightarrow> Message \<Rightarrow> Thread" where
  "new_thread conversationID date dateMessages startMsg endMsg =
     \<lparr>thr_ID = 0, thr_ConversationID = conversationID, Date = date,
      thr_MessageCount = int (length dateMessages),
      StartMessageID = Some (msg_ID startMsg), EndMessageID = Some (msg_ID endMsg),
      StartTimestamp = Timestamp startMsg, EndTimestamp = Timestamp endMsg\<rparr>"

text \<open>
  The loop over the dates of the map, in the order \<open>ks\<close>, with the threads built so
  far. The date comparison of the source only logs a warning and is left out.
\<close>

fun build_threads ::
  "db \<Rightarrow> nat \<Rightarrow> Message list \<Rightarrow> string list \<Rightarrow> Thread list \<Rightarrow> thread_error + Thread list" where
  "build_threads d conversationID msgs [] acc = Inr acc"
| "build_threads d conversationID msgs (date # dates) acc =
     (let dateMessages = messagesByDate msgs date in
      if length dateMessages = 0 then build_threads d conversationID msgs dates acc
      else if thread_exists d conversationID date
      then build_threads d conversationID msgs dates acc
      else
        let sorted = sort_key Timestamp dateMessages;
            startMsg = hd sorted;
            endMsg = last sorted
        in if msg_ConversationID startMsg \<noteq> conversationID
              \<or> msg_ConversationID endMsg \<noteq> conversationID
           then Inl ConversationMismatch
           else if Timestamp startMsg > Timestamp endMsg then Inl StartAfterEnd
           else build_threads d conversationID msgs dates
                  (acc @ [new_thread conversationID date sorted startMsg endMsg]))"

definition create_threads :: "Thread list \<Rightarrow> db \<Rightarrow> db" where
  "create_threads ts d =
     (let k = next_id (map thr_ID (threads d))
      in d\<lparr>threads := threads d
             @ map (\<lambda>(i, x). x\<lparr>thr_ID := k + i\<rparr>) (enumerate 0 ts)\<rparr>)"

text \<open>
  \<open>createThreadsForConversation\<close>: the number of threads created and the store after
  the batches are written; on an error nothing has been written.
\<close>

definition createThreadsForConversation ::
  "string list \<Rightarrow> nat \<Rightarrow> db \<Rightarrow> thread_error + (int \<times> db)" where
  "createThreadsForConversation ks conversationID d =
     (let msgs = conversation_messages d conversationID in
      if length msgs = 0 then Inr (0, d)
      else case build_threads d conversationID msgs ks [] of
             Inl e \<Rightarrow> Inl e
           | Inr ts \<Rightarrow> Inr (int (length ts), fold create_threads (batches ts) d))"

text \<open>The keys of the map that the loop ranges over: the dates of the messages.\<close>

definition message_dates :: "Message list \<Rightarrow> string list" where
  "message_dates msgs = remdups (map (\<lambda>msg. format_date (Timestamp msg)) msgs)"

text \<open>
  The number of threads the store holds for a conversation and a date, the thread that
  the loop builds for a date, and the dates for which a run builds one.
\<close>

definition thread_count :: "db \<Rightarrow> nat \<Rightarrow> string \<Rightarrow> nat" where
  "thread_count d conversationID date =
     length (filter (\<lambda>t. thr_ConversationID t = conversationID \<and> Date t = date) (threads d))"

definition date_thread :: "nat \<Rightarrow> Message list \<Rightarrow> string \<Rightarrow> Thread" where
  "date_thread conversationID msgs date =
     (let sorted = sort_key Timestamp (messagesByDate msgs date)
      in new_thread conversationID date sorted (hd sorted) (last sorted))"

definition created_dates :: "db \<Rightarrow> nat \<Rightarrow> string list \<Rightarrow> string list" where
  "created_dates d c ks =
     filter (\<lambda>date. messagesByDate (conversation_messages d c) date \<noteq> []
               \<and> \<not> thread_exists d c date) ks"

section \<open>Upload: \<open>services/upload.go\<close> and its handler\<close>

datatype upload_error =
  FileTooLarge | CreateTempFailed | WriteFailed | SizeMismatch | CloseFailed
  | AlreadyUploaded Upload | RenameFailed | CreateRecordFailed

text \<open>
  What one upload meets outside its arguments: the UUID drawn, the clock, the SHA-256
  digest in hexadecimal as a function of the bytes, and whether each file operation
  succeeds.
\<close>

record upload_env =
  new_uuid :: string
  upload_time :: time
  sha256_hex :: "string \<Rightarrow> string"
  create_ok :: bool
  copy_ok :: bool
  close_ok :: bool
  rename_ok :: bool

text \<open>
  The transaction that creates the upload and import rows. \<open>uuid\<close> and \<open>file_hash\<close>
  have unique indexes on the upload table and \<open>upload_id\<close> on the import table; a soft-deleted
  row still occupies its index entries. A violation rolls both rows back.
\<close>

definition create_upload_records :: "Upload \<Rightarrow> time \<Rightarrow> db \<Rightarrow> (Upload \<times> db) option" where
  "create_upload_records u t d =
     (if UUID u \<in> set (map UUID (uploads d)) \<or> FileHash u \<in> set (map FileHash (uploads d))
      then None
      else
        let u' = u\<lparr>up_ID := next_id (map up_ID (uploads d))\<rparr>;
            r = \<lparr>imp_ID = next_id (map imp_ID (import_records d)), imp_UploadID = up_ID u',
                 StartedAt = t, CompletedAt = None, imp_Status = ''pending'',
                 ProgressPercent = 0, imp_ErrorMessage = None, Stats = []\<rparr>
        in if up_ID u' \<in> set (map imp_UploadID (import_records d)) then None
           else Some (u', d\<lparr>uploads := uploads d @ [u'],
                             import_records := import_records d @ [r]\<rparr>))"

text \<open>
  \<open>UploadFile\<close>. Once the temporary file is created, the deferred \<open>os.Remove(tempPath)\<close>
  runs at every return. The duplicate query is a GORM query on a soft-delete model, so
  it sees the rows that are not deleted.
\<close>

definition UploadFile ::
  "config \<Rightarrow> upload_env \<Rightarrow> string \<Rightarrow> string \<Rightarrow> int \<Rightarrow> db \<times> fs
     \<Rightarrow> (upload_error + Upload) \<times> db \<times> fs" where
  "UploadFile cfg env originalFilename content fileSize w =
     (case w of (d, files) \<Rightarrow>
      if fileSize > MaxFileSize cfg then (Inl FileTooLarge, d, files)
      else
        let fileUUID = new_uuid env;
            storedPath = Join (UploadsDir cfg) (fileUUID @ ''.zip'');
            tempPath = storedPath @ ''.tmp''
        in if \<not> create_ok env then (Inl CreateTempFailed, d, files)
           else if \<not> copy_ok env then (Inl WriteFailed, d, files(tempPath := None))
           else if int (length content) \<noteq> fileSize
           then (Inl SizeMismatch, d, files(tempPath := None))
           else if \<not> close_ok env then (Inl CloseFailed, d, files(tempPath := None))
           else
             let fileHash = sha256_hex env content in
             case find (\<lambda>u. FileHash u = fileHash \<and> DeletedAt u = None) (uploads d) of
               Some existingUpload \<Rightarrow>
                 (Inl (AlreadyUploaded existingUpload), d, files(tempPath := None))
             | None \<Rightarrow>
                 if \<not> rename_ok env then (Inl RenameFailed, d, files(tempPath := None))
                 else
                   let files1 = (files(tempPath := None))(storedPath \<mapsto> content);
                       upload = \<lparr>up_ID = 0, UUID = fileUUID,
                                 OriginalFilename = originalFilename,
                                 StoredPath = storedPath, up_FileSize = fileSize,
                                 FileHash = fileHash, MimeType = ''application/zip'',
                                 UploadedAt = upload_time env, up_Status = ''pending'',
                                 DeletedAt = None\<rparr>
                   in case create_upload_records upload (upload_time env) d of
                        None \<Rightarrow> (Inl CreateRecordFailed, d, files1(storedPath := None))
                      | Some (created, d') \<Rightarrow> (Inr created, d', files1))"





section \<open>Conversation trees\<close>

text \<open>
  What it means for a mapping to hold a finite tree below a key: \<open>unfolds m t\<close> when
  \<open>t\<close> is the mapping followed from the key at the root of \<open>t\<close> through every
  \<open>Children\<close> list, a child that the mapping lacks being a leaf. A mapping with a
  cycle below the key has no such \<open>t\<close>; the keys of \<open>t\<close> are distinct when no node is
  reached twice.
\<close>

datatype ntree = NTree string "ntree list"

fun root_key :: "ntree \<Rightarrow> string" where
  "root_key (NTree k ts) = k"

fun unfolds :: "mapping \<Rightarrow> ntree \<Rightarrow> bool" where
  "unfolds m (NTree k ts) =
     (case m k of
        None \<Rightarrow> ts = []
      | Some node \<Rightarrow> Children node = map root_key ts \<and> list_all (unfolds m) ts)"

fun keys :: "ntree \<Rightarrow> string list" where
  "keys (NTree k ts) = k # concat (map keys ts)"

fun height :: "ntree \<Rightarrow> nat" where
  "height (NTree k ts) = Suc (foldr max (map height ts) 0)"

text \<open>
  The nodes of the tree with a finished message, in pre-order, and those among them
  that \<open>traverseMessages\<close> reaches: it goes no further below a node without a message.
\<close>

definition finished :: "mapping \<Rightarrow> string \<Rightarrow> bool" where
  "finished m k =
     (case m k of
        None \<Rightarrow> False
      | Some node \<Rightarrow>
          (case node_Message node of
             None \<Rightarrow> False
           | Some msg \<Rightarrow> md_Status msg = ''finished_successfully''))"

definition finished_nodes :: "mapping \<Rightarrow> ntree \<Rightarrow> string list" where
  "finished_nodes m t = filter (finished m) (keys t)"

fun emitted :: "mapping \<Rightarrow> ntree \<Rightarrow> (string \<times> MessageData) list" where
  "emitted m (NTree k ts) =
     (case m k of
        None \<Rightarrow> []
      | Some node \<Rightarrow>
          (case node_Message node of
             None \<Rightarrow> []
           | Some msg \<Rightarrow>
               (if md_Status msg = ''finished_successfully'' then [(k, msg)] else [])
                 @ concat (map (emitted m) ts)))"

text \<open>The records of a list of payloads, indexed from \<open>i\<close> in the order of the list.\<close>

definition numbered ::
  "(nat \<Rightarrow> time) \<Rightarrow> nat \<Rightarrow> nat \<Rightarrow> (string \<times> MessageData) list \<Rightarrow> Message list" where
  "numbered now conversationID i ps =
     map (\<lambda>(j, p). new_message now conversationID j (snd p)) (enumerate i ps)"

section \<open>Example inputs\<close>

text \<open>Nodes and payloads of small exports, for the evaluations below.\<close>

definition ex_msg :: "string \<Rightarrow> string \<Rightarrow> string \<Rightarrow> int \<Rightarrow> MessageData" where
  "ex_msg k role status sec =
     \<lparr>md_ID = k, AuthorRole = role, Parts = [''hello'', k], md_Status = status,
      MetaCreateTime = Some sec, MetadataJSON = ''{}''\<rparr>"

definition ex_node ::
  "string \<Rightarrow> MessageData option \<Rightarrow> string option \<Rightarrow> string list \<Rightarrow> MessageNode" where
  "ex_node k msg parent children =
     \<lparr>node_ID = k, node_Message = msg, Parent = parent, Children = children\<rparr>"

definition ex_clock :: "nat \<Rightarrow> time" where
  "ex_clock i = unix 1767225600 + int i"

text \<open>Node \<open>x\<close> has the child \<open>y\<close>, which lists \<open>x\<close> as its child.\<close>

definition cyclic_mapping :: mapping where
  "cyclic_mapping =
     [''x'' \<mapsto> ex_node ''x'' (Some (ex_msg ''x'' ''user'' ''finished_successfully'' 1705312800))
                None [''y''],
      ''y'' \<mapsto> ex_node ''y'' (Some (ex_msg ''y'' ''assistant'' ''finished_successfully'' 1705312860))
                (Some ''x'') [''x'']]"

text \<open>
  A tree: the root \<open>r\<close> with an unfinished child \<open>a\<close> (which has a finished child),
  a finished child \<open>b\<close> and a child \<open>zz\<close> that the mapping lacks.
\<close>

definition tree_mapping :: mapping where
  "tree_mapping =
     [''r'' \<mapsto> ex_node ''r'' (Some (ex_msg ''r'' ''user'' ''finished_successfully'' 1705312800))
                None [''a'', ''b'', ''zz''],
      ''a'' \<mapsto> ex_node ''a'' (Some (ex_msg ''a'' ''assistant'' ''in_progress'' 1705312860))
                (Some ''r'') [''a1''],
      ''a1'' \<mapsto> ex_node ''a1'' (Some (ex_msg ''a1'' ''user'' ''finished_successfully'' 1705312920))
                (Some ''a'') [],
      ''b'' \<mapsto> ex_node ''b'' (Some (ex_msg ''b'' ''assistant'' ''finished_successfully'' 1705312980))
                (Some ''r'') []]"

definition tree_shape :: ntree where
  "tree_shape =
     NTree ''r'' [NTree ''a'' [NTree ''a1'' []], NTree ''b'' [], NTree ''zz'' []]"

text \<open>
  The shape of an export of the ChatGPT application: the root node carries no message
  and its child carries the first one.
\<close>

definition nil_root_mapping :: mapping where
  "nil_root_mapping =
     [''root'' \<mapsto> ex_node ''root'' None None [''a''],
      ''a'' \<mapsto> ex_node ''a'' (Some (ex_msg ''a'' ''user'' ''finished_successfully'' 1705312800))
                (Some ''root'') []]"

definition nil_root_shape :: ntree where
  "nil_root_shape = NTree ''root'' [NTree ''a'' []]"

text \<open>Two nodes without a parent.\<close>

definition two_roots_mapping :: mapping where
  "two_roots_mapping =
     [''a'' \<mapsto> ex_node ''a'' (Some (ex_msg ''a'' ''user'' ''finished_successfully'' 1705312800))
                None [],
      ''b'' \<mapsto> ex_node ''b'' (Some (ex_msg ''b'' ''user'' ''finished_successfully'' 1705312860))
                None []]"

text \<open>
  A configuration, an upload with its import, the state in which \<open>ExtractUpload\<close>
  enters its loop for them, and three archive entries.
\<close>

definition ex_cfg :: config where
  "ex_cfg = \<lparr>MaxFileSize = 524288000, MaxExtractionSize = 2147483648,
             MaxExtractedFiles = 10000, UploadsDir = ''/data/uploads'',
             ExtractedDir = ''/data/extracted'', MessagesDir = ''/data/messages''\<rparr>"

definition ex_upload :: Upload where
  "ex_upload = \<lparr>up_ID = 1, UUID = ''u1'', OriginalFilename = ''export.zip'',
                StoredPath = ''/data/uploads/u1.zip'', up_FileSize = 4096,
                FileHash = ''ab12'', MimeType = ''application/zip'',
                UploadedAt = unix 1767225600, up_Status = ''pending'', DeletedAt = None\<rparr>"

definition ex_import :: Import where
  "ex_import = \<lparr>imp_ID = 1, imp_UploadID = 1, StartedAt = unix 1767225600,
                CompletedAt = None, imp_Status = ''pending'', ProgressPercent = 0,
                imp_ErrorMessage = None, Stats = []\<rparr>"

definition ex_db :: db where
  "ex_db = \<lparr>uploads = [ex_upload], import_records = [ex_import], extractions = [],
            conversations = [], messages = [], threads = []\<rparr>"

definition ex_extract_state :: extract_state where
  "ex_extract_state =
     \<lparr>totalSize = 0, fileCount = 0, extractedFiles = [],
      importRecord = ex_import\<lparr>imp_Status := ''extracting'', ProgressPercent := 10\<rparr>,
      est_db = ex_db\<lparr>import_records :=
                 [ex_import\<lparr>imp_Status := ''extracting'', ProgressPercent := 10\<rparr>]\<rparr>,
      est_fs = Map.empty\<rparr>"

definition evil_entry :: zip_file where
  "evil_entry = \<lparr>Name = ''../../etc/passwd'', UncompressedSize64 = 5, Data = ''root:'',
                 Outcome = Copied\<rparr>"

definition small_entry :: zip_file where
  "small_entry = \<lparr>Name = ''a.txt'', UncompressedSize64 = 10, Data = ''0123456789'',
                  Outcome = Copied\<rparr>"

definition huge_entry :: zip_file where
  "huge_entry = \<lparr>Name = ''b.bin'', UncompressedSize64 = 18446744073709551606,
                 Data = ''xyz'', Outcome = CopyFailed 3\<rparr>"

text \<open>
  An entry with an absolute name, an entry named after the directory itself that
  declares 4 GiB (a file cannot be created over the directory), and a configuration
  that allows one extracted file.
\<close>

definition abs_entry :: zip_file where
  "abs_entry = \<lparr>Name = ''/etc/passwd'', UncompressedSize64 = 5, Data = ''root:'',
                Outcome = Copied\<rparr>"

definition dot_entry :: zip_file where
  "dot_entry = \<lparr>Name = ''.'', UncompressedSize64 = 4294967296, Data = [],
                Outcome = NotCreated\<rparr>"

definition one_file_cfg :: config where
  "one_file_cfg = ex_cfg\<lparr>MaxExtractedFiles := 1\<rparr>"

text \<open>
  A store with two conversations. In conversation 1 the message of index 1 is an hour
  older than the message of index 0, on the same day; a third message is a day later.
  \<open>thread_db_after\<close> is that store after the threads of conversation 1 are created.
\<close>

definition ex_message :: "nat \<Rightarrow> nat \<Rightarrow> nat \<Rightarrow> string \<Rightarrow> int \<Rightarrow> Message" where
  "ex_message k c i role sec =
     \<lparr>msg_ID = k, msg_ConversationID = c, MessageID = Some ''m'', Role = role,
      Content = ''text'', Timestamp = unix sec, MessageIndex = i, msg_Metadata = ''{}''\<rparr>"

definition thread_db :: db where
  "thread_db =
     \<lparr>uploads = [], import_records = [], extractions = [], conversations = [],
      messages = [ex_message 1 1 0 ''user'' 1705320000,
                  ex_message 2 1 1 ''assistant'' 1705316400,
                  ex_message 3 1 2 ''user'' 1705406400,
                  ex_message 4 2 0 ''user'' 1705320000],
      threads = []\<rparr>"

definition thread_db_after :: db where
  "thread_db_after =
     thread_db\<lparr>threads :=
       [\<lparr>thr_ID = 1, thr_ConversationID = 1, Date = ''2024-01-16'', thr_MessageCount = 1,
         StartMessageID = Some 3, EndMessageID = Some 3,
         StartTimestamp = unix 1705406400, EndTimestamp = unix 1705406400\<rparr>,
        \<lparr>thr_ID = 2, thr_ConversationID = 1, Date = ''2024-01-15'', thr_MessageCount = 2,
         StartMessageID = Some 2, EndMessageID = Some 1,
         StartTimestamp = unix 1705316400, EndTimestamp = unix 1705320000\<rparr>]\<rparr>"

text \<open>
  A store that already holds the conversation of the example tree for upload 1, that
  conversation as an export gives it, and what a call meets.
\<close>

definition seen_db :: db where
  "seen_db =
     \<lparr>uploads = [], import_records = [], extractions = [],
      conversations =
        [\<lparr>conv_ID = 5, conv_UploadID = 1, ConversationID = ''r'', Title = Some ''Trip'',
          CreatedAt = unix 1705312800, UpdatedAt = unix 1705312980,
          SourceFilePath = ''/data/extracted/u1/conversations.json'', conv_MessageCount = 3\<rparr>],
      messages = [], threads = []\<rparr>"

definition seen_conversation :: ChatGPTConversation where
  "seen_conversation =
     \<lparr>cg_Title = ''Trip'', cg_CreateTime = 1705312800, cg_UpdateTime = 1705312980,
      Mapping = tree_mapping\<rparr>"

definition ex_parse_env :: parse_env where
  "ex_parse_env =
     \<lparr>stack_depth = 100, clock_now = ex_clock,
      root_order = [''b'', ''a1'', ''a'', ''r''], fallback_order = [''a'', ''r'', ''b'', ''a1''],
      messages_order = [''r'', ''a'', ''a1'', ''b''], dates_order = [''2024-01-15''],
      writable = (\<lambda>p. True), saved_at = unix 1767225600\<rparr>"

text \<open>
  An export whose mapping has two parentless nodes, for upload 1, and what two calls
  meet whose map loops take the keys in opposite orders.
\<close>

definition two_roots_conversation :: ChatGPTConversation where
  "two_roots_conversation =
     \<lparr>cg_Title = ''Pair'', cg_CreateTime = 1705312800, cg_UpdateTime = 1705312860,
      Mapping = two_roots_mapping\<rparr>"

definition ab_env :: parse_env where
  "ab_env =
     \<lparr>stack_depth = 100, clock_now = ex_clock,
      root_order = [''a'', ''b''], fallback_order = [''a'', ''b''],
      messages_order = [''a'', ''b''], dates_order = [''2024-01-15''],
      writable = (\<lambda>p. True), saved_at = unix 1767225600\<rparr>"

definition ba_env :: parse_env where
  "ba_env =
     \<lparr>stack_depth = 100, clock_now = ex_clock,
      root_order = [''b'', ''a''], fallback_order = [''b'', ''a''],
      messages_order = [''b'', ''a''], dates_order = [''2024-01-15''],
      writable = (\<lambda>p. True), saved_at = unix 1767229200\<rparr>"



definition empty_db :: db where
  "empty_db = \<lparr>uploads = [], import_records = [], extractions = [], conversations = [],
               messages = [], threads = []\<rparr>"





text \<open>The blocks written for a user message at 09:00:00 and for one at 10:00:00.\<close>

definition morning_block :: string where
  "morning_block =
     ''# Messages for 2024-01-15\<newline>\<newline>## 09:00:00\<newline>\<newline>text\<newline>\<newline>---\<newline>\<newline>''"

definition later_block :: string where
  "later_block =
     ''# Messages for 2024-01-15\<newline>\<newline>## 10:00:00\<newline>\<newline>text\<newline>\<newline>---\<newline>\<newline>''"

section \<open>The traversal of the message tree\<close>

lemma height_le_foldr: "t \<in> set ts \<Longrightarrow> height t \<le> foldr max (map height ts) 0"
  by (induction ts) auto

lemma numbered_Nil [simp]: "numbered now c i [] = []"
  by (simp add: numbered_def)

lemma numbered_append:
  "numbered now c i (ps @ qs) = numbered now c i ps @ numbered now c (i + length ps) qs"
  by (simp add: numbered_def enumerate_append_eq)

lemma numbered_single [simp]: "numbered now c i [(k, msg)] = [new_message now c i msg]"
  by (simp add: numbered_def)

lemma length_numbered [simp]: "length (numbered now c i ps) = length ps"
  by (simp add: numbered_def)

lemma index_numbered: "map MessageIndex (numbered now c i ps) = [i..<i + length ps]"
proof (induction ps arbitrary: i)
  case Nil
  show ?case by (simp add: numbered_def)
next
  case (Cons p ps)
  have 1: "numbered now c i (p # ps) = new_message now c i (snd p) # numbered now c (Suc i) ps"
    by (simp add: numbered_def enumerate_simps)
  have "i < i + length (p # ps)"
    by simp
  then have "[i..<i + length (p # ps)] = i # [Suc i..<i + length (p # ps)]"
    by (rule upt_conv_Cons)
  moreover have "i + length (p # ps) = Suc i + length ps"
    by simp
  ultimately have 2: "[i..<i + length (p # ps)] = i # [Suc i..<Suc i + length ps]"
    by (simp only:)
  have 3: "MessageIndex (new_message now c i (snd p)) = i"
    by (simp add: new_message_def)
  show ?case
    unfolding 1 2 using Cons [of "Suc i"] 3 by simp
qed

text \<open>
  The loop over the children of a node of the tree, given the result for each child:
  the children's emissions follow one another, the index running through.
\<close>

lemma traverse_children_trees:
  assumes IH: "\<And>t d ms i. t \<in> set ts \<Longrightarrow> unfolds m t \<Longrightarrow> height t \<le> d \<Longrightarrow>
            traverseMessages d now m (root_key t) c (ms, i)
              = Some (ms @ numbered now c i (emitted m t), i + length (emitted m t))"
    and "list_all (unfolds m) ts" and "\<forall>t \<in> set ts. height t \<le> d"
  shows "traverse_children d now m (map root_key ts) c (ms, i)
           = Some (ms @ numbered now c i (concat (map (emitted m) ts)),
                   i + length (concat (map (emitted m) ts)))"
  using assms
proof (induction ts arbitrary: ms i)
  case Nil
  then show ?case by simp
next
  case (Cons t ts)
  have 1: "traverseMessages d now m (root_key t) c (ms, i)
              = Some (ms @ numbered now c i (emitted m t), i + length (emitted m t))"
    using Cons.prems by simp
  have 2: "traverse_children d now m (map root_key ts) c
             (ms @ numbered now c i (emitted m t), i + length (emitted m t))
           = Some ((ms @ numbered now c i (emitted m t))
                     @ numbered now c (i + length (emitted m t)) (concat (map (emitted m) ts)),
                   (i + length (emitted m t)) + length (concat (map (emitted m) ts)))"
    using Cons.prems by (intro Cons.IH) auto
  show ?case using 1 2 by (simp add: numbered_append add.assoc)
qed

text \<open>
  On a tree the traversal returns as soon as the depth available reaches the height of
  the tree, and appends the records of the nodes it emits, in pre-order.
\<close>

lemma traverse_tree:
  "unfolds m t \<Longrightarrow> height t \<le> d \<Longrightarrow>
     traverseMessages d now m (root_key t) c (ms, i)
       = Some (ms @ numbered now c i (emitted m t), i + length (emitted m t))"
proof (induction t arbitrary: d ms i)
  case (NTree k ts)
  from NTree.prems(2) obtain d' where d: "d = Suc d'" and le: "foldr max (map height ts) 0 \<le> d'"
    by (cases d) auto
  show ?case
  proof (cases "m k")
    case None
    then show ?thesis using d by simp
  next
    case (Some node)
    show ?thesis
    proof (cases "node_Message node")
      case None
      then show ?thesis using Some d by simp
    next
      case (Some msg)
      have all: "list_all (unfolds m) ts" and ch: "Children node = map root_key ts"
        using NTree.prems(1) \<open>m k = Some node\<close> by auto
      have hs: "\<forall>t \<in> set ts. height t \<le> d'"
        using le height_le_foldr by fastforce
      have tc: "\<And>ms i. traverse_children d' now m (map root_key ts) c (ms, i)
           = Some (ms @ numbered now c i (concat (map (emitted m) ts)),
                   i + length (concat (map (emitted m) ts)))"
        using NTree.IH all hs by (intro traverse_children_trees) auto
      show ?thesis
        using Some \<open>m k = Some node\<close> d ch tc
        by (simp add: numbered_append numbered_def enumerate_simps)
    qed
  qed
qed

text \<open>The nodes emitted are finished nodes of the tree, none of them twice.\<close>

lemma emitted_keys: "set (map fst (emitted m t)) \<subseteq> set (keys t)"
proof (induction t)
  case (NTree k ts)
  then show ?case
    by (fastforce split: option.splits if_splits)
qed

lemma emitted_finished: "p \<in> set (emitted m t) \<Longrightarrow> finished m (fst p)"
proof (induction t)
  case (NTree k ts)
  then show ?case
    by (fastforce simp: finished_def split: option.splits if_splits)
qed

lemma distinct_concat_sub:
  assumes "distinct (concat (map f ts))"
    and "\<forall>t \<in> set ts. set (g t) \<subseteq> set (f t)"
    and "\<forall>t \<in> set ts. distinct (f t) \<longrightarrow> distinct (g t)"
  shows "distinct (concat (map g ts))"
  using assms
proof (induction ts)
  case Nil
  show ?case by simp
next
  case (Cons t ts)
  then have "distinct (g t)" and "distinct (concat (map g ts))"
    by auto
  moreover have "set (g t) \<inter> set (concat (map g ts)) = {}"
    using Cons.prems(1,2) by fastforce
  ultimately show ?case by simp
qed

lemma distinct_emitted: "distinct (keys t) \<Longrightarrow> distinct (map fst (emitted m t))"
proof (induction t)
  case (NTree k ts)
  let ?g = "\<lambda>t. map fst (emitted m t)"
  have dk: "distinct (concat (map keys ts))" and kn: "k \<notin> set (concat (map keys ts))"
    using NTree.prems by simp_all
  have sub: "\<forall>t \<in> set ts. set (?g t) \<subseteq> set (keys t)"
    using emitted_keys by blast
  have ih: "\<forall>t \<in> set ts. distinct (keys t) \<longrightarrow> distinct (?g t)"
    using NTree.IH by blast
  have d: "distinct (concat (map ?g ts))"
    by (rule distinct_concat_sub [OF dk sub ih])
  have "set (concat (map ?g ts)) \<subseteq> set (concat (map keys ts))"
    using sub by fastforce
  then have k: "k \<notin> set (concat (map ?g ts))"
    using kn by blast
  have c: "map fst (concat (map (emitted m) ts)) = concat (map ?g ts)"
    by (simp add: map_concat comp_def)
  show ?case
  proof (cases "m k")
    case None
    then show ?thesis by simp
  next
    case (Some node)
    show ?thesis
    proof (cases "node_Message node")
      case None
      then show ?thesis using Some by simp
    next
      case (Some msg)
      then show ?thesis
        using \<open>m k = Some node\<close> d k c by simp
    qed
  qed
qed

text \<open>
  Where every node of the tree carries a message, the nodes emitted are all the
  finished nodes of the tree: the traversal then returns one record for each of them,
  with the indices from 0 on in pre-order.
\<close>

lemma filter_concat_map:
  "filter P (concat (map f ts)) = concat (map (\<lambda>t. filter P (f t)) ts)"
  by (induction ts) auto

lemma all_payloads_emitted:
  assumes "unfolds m t"
    and "\<forall>k \<in> set (keys t). \<forall>node. m k = Some node \<longrightarrow> node_Message node \<noteq> None"
  shows "map fst (emitted m t) = finished_nodes m t"
  using assms
proof (induction t)
  case (NTree k ts)
  show ?case
  proof (cases "m k")
    case None
    then show ?thesis
      using NTree.prems(1) by (simp add: finished_nodes_def finished_def)
  next
    case (Some node)
    then obtain msg where msg: "node_Message node = Some msg"
      using NTree.prems(2) by auto
    have all: "list_all (unfolds m) ts"
      using NTree.prems(1) Some by simp
    have ih: "map fst (emitted m t) = finished_nodes m t" if "t \<in> set ts" for t
    proof -
      have "unfolds m t"
        using all that by (simp add: list_all_iff)
      moreover have "\<forall>k \<in> set (keys t). \<forall>node. m k = Some node \<longrightarrow> node_Message node \<noteq> None"
        using NTree.prems(2) that by auto
      ultimately show ?thesis
        using NTree.IH that by blast
    qed
    have "map fst (concat (map (emitted m) ts)) = concat (map (\<lambda>t. map fst (emitted m t)) ts)"
      by (simp add: map_concat comp_def)
    also have "\<dots> = concat (map (finished_nodes m) ts)"
      using ih by (metis (mono_tags, lifting) map_eq_conv)
    also have "\<dots> = filter (finished m) (concat (map keys ts))"
      by (simp add: filter_concat_map finished_nodes_def [abs_def])
    finally have rest: "map fst (concat (map (emitted m) ts))
                          = filter (finished m) (concat (map keys ts))" .
    show ?thesis
      using Some msg rest by (simp add: finished_nodes_def finished_def)
  qed
qed

lemma tree_with_payloads_emits_all:
  assumes "unfolds m t" and "height t \<le> d"
    and "\<forall>k \<in> set (keys t). \<forall>node. m k = Some node \<longrightarrow> node_Message node \<noteq> None"
  shows "\<exists>msgs. traverseMessages d now m (root_key t) c ([], 0) = Some (msgs, length msgs)
           \<and> length msgs = length (finished_nodes m t)
           \<and> map MessageIndex msgs = [0..<length (finished_nodes m t)]"
proof -
  have l: "length (emitted m t) = length (finished_nodes m t)"
    using arg_cong [OF all_payloads_emitted [OF assms(1,3)], of length] by simp
  show ?thesis
    using traverse_tree [OF assms(1,2), of now c "[]" 0] l
      index_numbered [of now c 0 "emitted m t"]
    by simp
qed

lemma traverse_cycle_None:
  "traverseMessages d now cyclic_mapping ''x'' c st = None
   \<and> traverseMessages d now cyclic_mapping ''y'' c st = None"
proof (induction d arbitrary: st)
  case 0
  show ?case by simp
next
  case (Suc d)
  show ?case
    using Suc [of "(fst st @ [new_message now c (snd st)
                     (ex_msg ''x'' ''user'' ''finished_successfully'' 1705312800)], Suc (snd st))"]
          Suc [of "(fst st @ [new_message now c (snd st)
                     (ex_msg ''y'' ''assistant'' ''finished_successfully'' 1705312860)], Suc (snd st))"]
    by (simp add: cyclic_mapping_def ex_node_def ex_msg_def)
qed

text \<open>A record that is emitted carries the message of its node.\<close>

lemma emitted_payload:
  "p \<in> set (emitted m t) \<Longrightarrow> \<exists>node. m (fst p) = Some node \<and> node_Message node = Some (snd p)"
proof (induction t)
  case (NTree k ts)
  show ?case
  proof (cases "m k")
    case None
    then show ?thesis using NTree.prems by simp
  next
    case (Some node)
    show ?thesis
    proof (cases "node_Message node")
      case None
      then show ?thesis using NTree.prems Some by simp
    next
      case (Some msg)
      have "p = (k, msg) \<or> (\<exists>t \<in> set ts. p \<in> set (emitted m t))"
        using NTree.prems \<open>m k = Some node\<close> Some by (auto split: if_splits)
      then show ?thesis
        using NTree.IH \<open>m k = Some node\<close> Some by auto
    qed
  qed
qed

text \<open>
  Claim C2, as the code has it. \<open>traverseMessages\<close> keeps no set of visited nodes.
  On every mapping that holds a finite tree below the start node (no cycle, no node
  reached twice), every node of which carries a message, the traversal returns, at
  every depth of stack from the height of the tree on, and each node with a finished
  message is emitted exactly once: the records are those of the finished nodes of the
  tree in pre-order, each with the message of its node, with the indices from 0 on.
\<close>

theorem traversal_of_tree_returns:
  assumes "unfolds m t" and "distinct (keys t)"
    and "\<forall>k \<in> set (keys t). \<forall>node. m k = Some node \<longrightarrow> node_Message node \<noteq> None"
  shows "(\<forall>d. height t \<le> d \<longrightarrow>
            traverseMessages d now m (root_key t) c ([], 0)
              = Some (numbered now c 0 (emitted m t), length (finished_nodes m t)))
         \<and> map fst (emitted m t) = finished_nodes m t
         \<and> distinct (finished_nodes m t)
         \<and> (\<forall>p \<in> set (emitted m t).
               \<exists>node. m (fst p) = Some node \<and> node_Message node = Some (snd p))
         \<and> map MessageIndex (numbered now c 0 (emitted m t))
             = [0..<length (finished_nodes m t)]"
proof -
  have e: "map fst (emitted m t) = finished_nodes m t"
    by (rule all_payloads_emitted [OF assms(1,3)])
  have l: "length (emitted m t) = length (finished_nodes m t)"
    using arg_cong [OF e, of length] by simp
  have r: "\<forall>d. height t \<le> d \<longrightarrow>
            traverseMessages d now m (root_key t) c ([], 0)
              = Some (numbered now c 0 (emitted m t), length (finished_nodes m t))"
    using traverse_tree [OF assms(1), of _ now c "[]" 0] l by simp
  have d: "distinct (finished_nodes m t)"
    using assms(2) by (simp add: finished_nodes_def)
  have i: "map MessageIndex (numbered now c 0 (emitted m t)) = [0..<length (finished_nodes m t)]"
    using index_numbered [of now c 0 "emitted m t"] l by simp
  show ?thesis
    using e r d i emitted_payload [of _ m t] by blast
qed

text \<open>
  The theorem at the example tree, whose nodes all carry a message, the one of \<open>a\<close>
  unfinished: three records, for \<open>r\<close>, \<open>a1\<close> and \<open>b\<close>.
\<close>

theorem traversal_of_tree_returns_witness:
  "unfolds tree_mapping tree_shape \<and> distinct (keys tree_shape)
   \<and> finished_nodes tree_mapping tree_shape = [''r'', ''a1'', ''b'']
   \<and> traverseMessages 3 ex_clock tree_mapping ''r'' 1 ([], 0)
       = Some (numbered ex_clock 1 0 (emitted tree_mapping tree_shape), 3)
   \<and> map fst (emitted tree_mapping tree_shape) = [''r'', ''a1'', ''b'']
   \<and> map MessageIndex (numbered ex_clock 1 0 (emitted tree_mapping tree_shape)) = [0, 1, 2]"
proof -
  have u: "unfolds tree_mapping tree_shape"
    by (simp add: tree_mapping_def tree_shape_def ex_node_def)
  have k: "distinct (keys tree_shape)"
    by (simp add: tree_shape_def)
  have p: "\<forall>k \<in> set (keys tree_shape). \<forall>node. tree_mapping k = Some node \<longrightarrow> node_Message node \<noteq> None"
    by (simp add: tree_mapping_def tree_shape_def ex_node_def)
  have h: "height tree_shape = 3"
    by (simp add: tree_shape_def)
  have f: "finished_nodes tree_mapping tree_shape = [''r'', ''a1'', ''b'']"
    by (simp add: finished_nodes_def finished_def tree_mapping_def tree_shape_def ex_node_def
        ex_msg_def)
  have r: "root_key tree_shape = ''r''"
    by (simp add: tree_shape_def)
  have n: "[0..<3] = [0, 1, 2::nat]"
    by (simp add: upt_conv_Cons)
  show ?thesis
    using traversal_of_tree_returns [OF u k p, of ex_clock 1] u k h f r n by simp
qed

text \<open>
  The claim as the specification states it fails on a mapping with a cycle: from \<open>x\<close>,
  whose child \<open>y\<close> lists \<open>x\<close> as its child, the traversal returns at no depth of stack.
\<close>

theorem traversal_of_cycle_never_returns:
  "\<forall>d st. traverseMessages d ex_clock cyclic_mapping ''x'' 1 st = None"
  using traverse_cycle_None by blast

text \<open>
  Claim C3, evaluated where the code departs from it. The mapping is a rooted tree of
  two nodes; its one finished message is at the child \<open>a\<close> of the root. The root carries
  no message, \<open>traverseMessages\<close> returns at once without visiting its children, and
  the parser emits no message, in whatever order the root is looked for.
\<close>

theorem nil_payload_root_emits_nothing:
  "unfolds nil_root_mapping nil_root_shape
   \<and> distinct (keys nil_root_shape)
   \<and> finished_nodes nil_root_mapping nil_root_shape = [''a'']
   \<and> processMessages 2 ex_clock [''root'', ''a''] nil_root_mapping 1 = Some []
   \<and> processMessages 2 ex_clock [''a'', ''root''] nil_root_mapping 1 = Some []"
  by (simp add: processMessages_def finished_nodes_def finished_def nil_root_mapping_def
      nil_root_shape_def parentless_def ex_node_def ex_msg_def numeral_2_eq_2)

section \<open>The choice of the root\<close>

lemma filter_unique:
  assumes "distinct ks" and "r \<in> set ks" and "\<forall>k \<in> set ks. P k \<longleftrightarrow> k = r"
  shows "filter P ks = [r]"
  using assms
proof (induction ks)
  case Nil
  then show ?case by simp
next
  case (Cons k ks)
  show ?case
  proof (cases "k = r")
    case True
    then have "filter P ks = []"
      using Cons.prems by (auto simp: filter_empty_conv)
    then show ?thesis using True Cons.prems by simp
  next
    case False
    then show ?thesis using Cons by auto
  qed
qed

lemma parentless_in_dom: "parentless m k \<Longrightarrow> k \<in> dom m"
  by (auto simp: parentless_def split: option.splits)

text \<open>
  Claim C9, as the code has it. Root discovery takes the first node without a parent
  in the order in which the loop meets the keys of the map, with no tie-break. When
  exactly one node of the mapping has no parent, every order yields that node, as the
  conversation identifier and as the root of the traversal, and (with the same clock)
  the same messages.
\<close>

theorem single_parentless_node_is_root:
  assumes "range_order m ks1" and "range_order m ks2"
    and "parentless m r" and "\<forall>k. parentless m k \<longrightarrow> k = r"
  shows "findRootMessageID ks1 ks1' m = r \<and> findRootMessageID ks2 ks2' m = r
         \<and> processMessages d now ks1 m c = processMessages d now ks2 m c"
proof -
  have only: "filter (parentless m) ks = [r]" if "range_order m ks" for ks
  proof -
    have d: "distinct ks" and s: "set ks = dom m"
      using that by (simp_all add: range_order_def)
    have i: "r \<in> set ks"
      using parentless_in_dom [OF assms(3)] s by simp
    have u: "\<forall>k \<in> set ks. parentless m k \<longleftrightarrow> k = r"
      using assms(3,4) by blast
    show ?thesis
      by (rule filter_unique [OF d i u])
  qed
  show ?thesis
    by (simp add: findRootMessageID_def processMessages_def only [OF assms(1)]
        only [OF assms(2)])
qed

theorem single_parentless_node_is_root_witness:
  "range_order tree_mapping [''r'', ''a'', ''a1'', ''b'']
   \<and> range_order tree_mapping [''b'', ''a1'', ''a'', ''r'']
   \<and> parentless tree_mapping ''r''
   \<and> findRootMessageID [''r'', ''a'', ''a1'', ''b''] [] tree_mapping = ''r''
   \<and> findRootMessageID [''b'', ''a1'', ''a'', ''r''] [] tree_mapping = ''r''
   \<and> processMessages 3 ex_clock [''r'', ''a'', ''a1'', ''b''] tree_mapping 1
       = processMessages 3 ex_clock [''b'', ''a1'', ''a'', ''r''] tree_mapping 1"
proof -
  have o1: "range_order tree_mapping [''r'', ''a'', ''a1'', ''b'']"
    by (auto simp: range_order_def tree_mapping_def)
  have o2: "range_order tree_mapping [''b'', ''a1'', ''a'', ''r'']"
    by (auto simp: range_order_def tree_mapping_def)
  have p: "parentless tree_mapping ''r''"
    by (simp add: parentless_def tree_mapping_def ex_node_def)
  have q: "\<forall>k. parentless tree_mapping k \<longrightarrow> k = ''r''"
    by (auto simp: parentless_def tree_mapping_def ex_node_def split: if_splits)
  show ?thesis
    using single_parentless_node_is_root [OF o1 o2 p q, of "[]" "[]" 3 ex_clock 1] o1 o2 p
    by simp
qed

lemma two_roots_orders:
  "range_order two_roots_mapping [''a'', ''b'']"
  "range_order two_roots_mapping [''b'', ''a'']"
  by (auto simp: range_order_def two_roots_mapping_def)

lemma two_roots_ab:
  "processMessages 1 ex_clock [''a'', ''b''] two_roots_mapping 1
     = Some [new_message ex_clock 1 0 (ex_msg ''a'' ''user'' ''finished_successfully'' 1705312800)]"
  by (simp add: processMessages_def parentless_def two_roots_mapping_def ex_node_def ex_msg_def
      Let_def)

lemma two_roots_ba:
  "processMessages 1 ex_clock [''b'', ''a''] two_roots_mapping 1
     = Some [new_message ex_clock 1 0 (ex_msg ''b'' ''user'' ''finished_successfully'' 1705312860)]"
  by (simp add: processMessages_def parentless_def two_roots_mapping_def ex_node_def ex_msg_def
      Let_def)

text \<open>
  The claim as the specification states it fails on a mapping with two parentless
  nodes: two possible orders of the same map give different roots, different
  conversation identifiers and different messages.
\<close>

theorem root_depends_on_map_order:
  "range_order two_roots_mapping [''a'', ''b'']
   \<and> range_order two_roots_mapping [''b'', ''a'']
   \<and> findRootMessageID [''a'', ''b''] [''a'', ''b''] two_roots_mapping = ''a''
   \<and> findRootMessageID [''b'', ''a''] [''b'', ''a''] two_roots_mapping = ''b''
   \<and> processMessages 1 ex_clock [''a'', ''b''] two_roots_mapping 1
       \<noteq> processMessages 1 ex_clock [''b'', ''a''] two_roots_mapping 1"
proof -
  have 1: "findRootMessageID [''a'', ''b''] [''a'', ''b''] two_roots_mapping = ''a''"
    by (simp add: findRootMessageID_def parentless_def two_roots_mapping_def ex_node_def)
  have 2: "findRootMessageID [''b'', ''a''] [''b'', ''a''] two_roots_mapping = ''b''"
    by (simp add: findRootMessageID_def parentless_def two_roots_mapping_def ex_node_def)
  have 3: "processMessages 1 ex_clock [''a'', ''b''] two_roots_mapping 1
       \<noteq> processMessages 1 ex_clock [''b'', ''a''] two_roots_mapping 1"
    unfolding two_roots_ab two_roots_ba by (simp add: new_message_def ex_msg_def)
  show ?thesis
    using two_roots_orders 1 2 3 by blast
qed

section \<open>Path safety of the extraction\<close>

text \<open>Prefixes, substrings and the elements of a path.\<close>

lemma HasPrefix_iff: "HasPrefix s p \<longleftrightarrow> (\<exists>r. s = p @ r)"
  by (induction s p rule: HasPrefix.induct) auto

lemma Contains_iff: "Contains s sub \<longleftrightarrow> (\<exists>a b. s = a @ sub @ b)"
proof (induction s)
  case Nil
  show ?case by auto
next
  case (Cons x xs)
  show ?case
  proof
    assume "Contains (x # xs) sub"
    then consider "HasPrefix (x # xs) sub" | "Contains xs sub" by auto
    then show "\<exists>a b. x # xs = a @ sub @ b"
    proof cases
      case 1
      then obtain r where "x # xs = sub @ r" by (auto simp: HasPrefix_iff)
      then have "x # xs = [] @ sub @ r" by simp
      then show ?thesis by blast
    next
      case 2
      then obtain a b where "xs = a @ sub @ b" using Cons by auto
      then have "x # xs = (x # a) @ sub @ b" by simp
      then show ?thesis by blast
    qed
  next
    assume "\<exists>a b. x # xs = a @ sub @ b"
    then obtain a b where ab: "x # xs = a @ sub @ b" by blast
    show "Contains (x # xs) sub"
    proof (cases a)
      case Nil
      then have "HasPrefix (x # xs) sub" using ab by (auto simp: HasPrefix_iff)
      then show ?thesis by simp
    next
      case (Cons y ys)
      then have "xs = ys @ sub @ b" using ab by simp
      then have "Contains xs sub" using Cons.IH by blast
      then show ?thesis by simp
    qed
  qed
qed

lemma split_sep_not_Nil [simp]: "split_sep p \<noteq> []"
  by (induction p) auto

lemma split_sep_eval:
  "split_sep (x # xs) =
     (case split_sep xs of
        [] \<Rightarrow> []
      | h # t \<Rightarrow> if x = CHR ''/'' then [] # h # t else (x # h) # t)"
  by (cases "split_sep xs") auto

lemma split_sep_no_sep: "e \<in> set (split_sep p) \<Longrightarrow> CHR ''/'' \<notin> set e"
proof (induction p arbitrary: e)
  case Nil
  then show ?case by simp
next
  case (Cons x xs)
  obtain h t where ht: "split_sep xs = h # t"
    by (cases "split_sep xs") auto
  show ?case
    using Cons ht by (auto split: if_splits)
qed

lemma split_sep_append: "split_sep (a @ ''/'' @ b) = split_sep a @ split_sep b"
proof (induction a)
  case Nil
  show ?case by simp
next
  case (Cons x xs)
  obtain h t where ht: "split_sep xs = h # t"
    by (cases "split_sep xs") auto
  show ?case
    using Cons ht by simp
qed

lemma split_sep_plain: "CHR ''/'' \<notin> set e \<Longrightarrow> split_sep e = [e]"
  by (induction e) auto

lemma split_sep_join:
  "es \<noteq> [] \<Longrightarrow> \<forall>e \<in> set es. CHR ''/'' \<notin> set e \<Longrightarrow> split_sep (join_sep es) = es"
proof (induction es rule: join_sep.induct)
  case 1
  then show ?case by simp
next
  case (2 e)
  then show ?case by (simp add: split_sep_plain)
next
  case (3 e v va)
  then show ?case
    using split_sep_append [of e "join_sep (v # va)"] by (simp add: split_sep_plain)
qed

lemma split_sep_segment: "e \<in> set (split_sep p) \<Longrightarrow> \<exists>a b. p = a @ e @ b"
proof (induction p arbitrary: e)
  case Nil
  then show ?case by simp
next
  case (Cons x xs)
  obtain h t where ht: "split_sep xs = h # t"
    by (cases "split_sep xs") auto
  have hseg: "\<exists>b. xs = h @ b"
  proof -
    have "\<exists>b. ys = hd (split_sep ys) @ b" for ys
    proof (induction ys)
      case Nil
      show ?case by simp
    next
      case (Cons y ys)
      then show ?case by auto
    qed
    from this [of xs] show ?thesis using ht by simp
  qed
  show ?case
  proof (cases "x = CHR ''/''")
    case True
    then have "e = [] \<or> e \<in> set (split_sep xs)"
      using Cons.prems by auto
    then show ?thesis
    proof
      assume "e = []"
      then have "x # xs = [] @ e @ (x # xs)" by simp
      then show ?thesis by blast
    next
      assume "e \<in> set (split_sep xs)"
      then obtain a b where "xs = a @ e @ b" using Cons.IH by blast
      then have "x # xs = (x # a) @ e @ b" by simp
      then show ?thesis by blast
    qed
  next
    case False
    then have "e = x # h \<or> e \<in> set t"
      using Cons.prems ht by auto
    then show ?thesis
    proof
      assume e: "e = x # h"
      from hseg obtain b where "xs = h @ b" by blast
      then have "x # xs = [] @ e @ b" using e by simp
      then show ?thesis by blast
    next
      assume "e \<in> set t"
      then have "e \<in> set (split_sep xs)" using ht by simp
      then obtain a b where "xs = a @ e @ b" using Cons.IH by blast
      then have "x # xs = (x # a) @ e @ b" by simp
      then show ?thesis by blast
    qed
  qed
qed

lemma parent_segment_Contains: "has_parent_segment c \<Longrightarrow> Contains c ''..''"
  using split_sep_segment [of "''..''" c]
  by (auto simp: has_parent_segment_def Contains_iff)

text \<open>
  \<open>filepath.Clean\<close> on an absolute path: its elements are plain names, cleaning again
  changes nothing, and elements without \<open>..\<close> appended to a directory stay below it.
\<close>

lemma foldl_clean_plain:
  "\<forall>e \<in> set es. e \<noteq> ''..'' \<Longrightarrow>
     foldl (clean_elem r) out es = out @ filter (\<lambda>e. e \<noteq> [] \<and> e \<noteq> ''.'') es"
  by (induction es arbitrary: out) (auto simp: clean_elem_def)

lemma foldl_clean_rooted_set:
  "set (foldl (clean_elem True) out es)
     \<subseteq> set out \<union> {e \<in> set es. e \<noteq> [] \<and> e \<noteq> ''.'' \<and> e \<noteq> ''..''}"
proof (induction es arbitrary: out)
  case Nil
  show ?case by simp
next
  case (Cons e es)
  have "set (clean_elem True out e) \<subseteq> set out \<union> {x \<in> {e}. x \<noteq> [] \<and> x \<noteq> ''.'' \<and> x \<noteq> ''..''}"
    using in_set_butlastD [of _ out] by (auto simp: clean_elem_def)
  then show ?case
    using Cons [of "clean_elem True out e"] by auto
qed

lemma clean_elems_rooted:
  assumes "IsAbs p" and "e \<in> set (clean_elems p)"
  shows "e \<noteq> [] \<and> e \<noteq> ''.'' \<and> e \<noteq> ''..'' \<and> CHR ''/'' \<notin> set e"
proof -
  have "e \<in> {e \<in> set (split_sep p). e \<noteq> [] \<and> e \<noteq> ''.'' \<and> e \<noteq> ''..''}"
    using assms foldl_clean_rooted_set [of "[]" "split_sep p"]
    by (auto simp: clean_elems_def IsAbs_def)
  then show ?thesis
    using split_sep_no_sep by auto
qed

lemma IsAbs_Cons: "IsAbs p \<longleftrightarrow> (\<exists>q. p = CHR ''/'' # q)"
  by (cases p) (auto simp: IsAbs_def)

lemma Clean_rooted: "IsAbs p \<Longrightarrow> Clean p = ''/'' @ join_sep (clean_elems p)"
  by (simp add: Clean_def IsAbs_def)

lemma IsAbs_Clean: "IsAbs p \<Longrightarrow> IsAbs (Clean p)"
  by (simp add: Clean_rooted) (simp add: IsAbs_def)

lemma clean_elems_Clean:
  assumes "IsAbs p"
  shows "clean_elems (Clean p) = clean_elems p"
proof -
  let ?E = "clean_elems p"
  have norm: "\<forall>e \<in> set ?E. e \<noteq> [] \<and> e \<noteq> ''.'' \<and> e \<noteq> ''..'' \<and> CHR ''/'' \<notin> set e"
    using clean_elems_rooted [OF assms] by blast
  have c: "Clean p = ''/'' @ join_sep ?E"
    by (rule Clean_rooted [OF assms])
  have r: "HasPrefix (Clean p) ''/''"
    using c by simp
  have s: "split_sep (Clean p) = [] # split_sep (join_sep ?E)"
    using c by simp
  show ?thesis
  proof (cases "?E = []")
    case True
    then show ?thesis
      using s r by (simp add: clean_elems_def [of "Clean p"] clean_elem_def)
  next
    case False
    then have "split_sep (join_sep ?E) = ?E"
      using norm by (intro split_sep_join) auto
    then have "clean_elems (Clean p) = foldl (clean_elem True) [] ([] # ?E)"
      using s r by (simp add: clean_elems_def [of "Clean p"])
    also have "\<dots> = [] @ filter (\<lambda>e. e \<noteq> [] \<and> e \<noteq> ''.'') ([] # ?E)"
      using norm by (intro foldl_clean_plain) auto
    also have "\<dots> = ?E"
      using norm by (simp add: filter_id_conv)
    finally show ?thesis .
  qed
qed

lemma clean_elems_join:
  assumes "IsAbs base" and "\<forall>e \<in> set (split_sep c). e \<noteq> ''..''"
  shows "clean_elems (base @ ''/'' @ c)
           = clean_elems base @ filter (\<lambda>e. e \<noteq> [] \<and> e \<noteq> ''.'') (split_sep c)"
proof -
  have r: "HasPrefix (base @ ''/'' @ c) ''/''" "HasPrefix base ''/''"
    using assms(1) by (auto simp: IsAbs_Cons)
  have s: "split_sep (base @ ''/'' @ c) = split_sep base @ split_sep c"
    by (rule split_sep_append)
  have "clean_elems (base @ ''/'' @ c)
          = foldl (clean_elem True) (clean_elems base) (split_sep c)"
    using r s by (simp add: clean_elems_def)
  then show ?thesis
    using foldl_clean_plain [OF assms(2), of True "clean_elems base"] by simp
qed

lemma accepted_within:
  assumes abs: "IsAbs base" and nd: "\<not> Contains c ''..''"
  shows "within base (Join base c)"
proof -
  have b: "base \<noteq> []"
    using abs by (auto simp: IsAbs_Cons)
  have nodd: "\<forall>e \<in> set (split_sep c). e \<noteq> ''..''"
    using nd parent_segment_Contains [of c] by (auto simp: has_parent_segment_def)
  show ?thesis
  proof (cases "c = []")
    case True
    then have "Join base c = Clean base"
      using b by (simp add: Join_def)
    then show ?thesis
      using abs by (simp add: within_def IsAbs_Clean clean_elems_Clean)
  next
    case False
    have a2: "IsAbs (base @ ''/'' @ c)"
      using abs by (auto simp: IsAbs_Cons)
    have j: "Join base c = Clean (base @ ''/'' @ c)"
      using b False by (simp add: Join_def)
    have "clean_elems (Join base c) = clean_elems (base @ ''/'' @ c)"
      unfolding j by (rule clean_elems_Clean [OF a2])
    then have e: "clean_elems (Join base c)
        = clean_elems base @ filter (\<lambda>e. e \<noteq> [] \<and> e \<noteq> ''.'') (split_sep c)"
      using clean_elems_join [OF abs nodd] by simp
    have "IsAbs (Join base c)"
      unfolding j by (rule IsAbs_Clean [OF a2])
    then show ?thesis
      using e by (simp add: within_def)
  qed
qed

lemma escaping_rejected:
  assumes "IsAbs base" and "leaves base (sanitize_clean name)"
  shows "\<exists>e. sanitizePath wd name base = Inl e"
proof -
  let ?c = "sanitize_clean name"
  have "Contains ?c ''..'' \<or> IsAbs ?c"
    using assms accepted_within [OF assms(1), of ?c] parent_segment_Contains [of ?c]
    by (auto simp: leaves_def)
  then show ?thesis
    by (auto simp: sanitizePath_def Let_def)
qed

lemma accepted_is_within:
  assumes "IsAbs base" and "sanitizePath wd name base = Inr full"
  shows "within base full"
proof -
  have "\<not> Contains (sanitize_clean name) ''..''" and "full = Join base (sanitize_clean name)"
    using assms(2) by (auto simp: sanitizePath_def Let_def split: if_splits option.splits)
  then show ?thesis
    using accepted_within [OF assms(1)] by simp
qed

lemma IsAbs_Join: "IsAbs a \<Longrightarrow> IsAbs (Join a b)"
proof -
  assume a: "IsAbs a"
  then have "IsAbs (a @ ''/'' @ b)" by (auto simp: IsAbs_Cons)
  then show ?thesis
    using a IsAbs_Clean [of a] IsAbs_Clean [of "a @ ''/'' @ b"]
    by (auto simp: Join_def IsAbs_Cons)
qed

lemmas path_eval =
  Clean_def clean_elems_def clean_elem_def split_sep_eval Join_def TrimPrefix_def
  sanitize_clean_def IsAbs_def Abs_def

lemma ex_dir: "Join (ExtractedDir ex_cfg) ''u1'' = ''/data/extracted/u1''"
  by (simp add: ex_cfg_def path_eval del: split_sep.simps(2))

lemma ex_evil: "sanitize_clean (Name evil_entry) = ''../../etc/passwd''"
  by (simp add: evil_entry_def path_eval del: split_sep.simps(2))

text \<open>
  The iterations of the loop of \<open>ExtractUpload\<close>: on an entry that \<open>sanitizePath\<close>
  rejects, on an entry that is copied, and at the file-count limit; and the two ways a
  run ends once the loop is over.
\<close>

lemma step_rejected:
  assumes "fileCount st < MaxExtractedFiles cfg" and "sanitizePath wd (Name file) dir = Inl e"
  shows "extract_step cfg wd clock uploadID dir n st file = Continue st"
  using assms by (simp add: extract_step_def)

lemma step_copied_state:
  assumes "fileCount st < MaxExtractedFiles cfg"
    and "sanitizePath wd (Name file) dir = Inr p"
    and "\<not> MaxExtractionSize cfg < totalSize st + UncompressedSize64 file"
    and "Outcome file = Copied"
  shows "extract_step cfg wd clock uploadID dir n st file
           = Continue
               (st\<lparr>totalSize := totalSize st + UncompressedSize64 file,
                   fileCount := fileCount st + 1,
                   extractedFiles := extractedFiles st
                     @ [\<lparr>ext_ID = 0, ext_UploadID = uploadID, FilePath = p,
                         FileType = determineFileType (Name file),
                         ext_FileSize = UncompressedSize64 file,
                         ExtractedAt = clock, ext_Status = ''extracted''\<rparr>],
                   importRecord := (importRecord st)
                     \<lparr>ProgressPercent := 10 + ((fileCount st + 1) * 30) div int n\<rparr>,
                   est_db := save_import
                     ((importRecord st)
                        \<lparr>ProgressPercent := 10 + ((fileCount st + 1) * 30) div int n\<rparr>)
                     (est_db st),
                   est_fs := (est_fs st)(p \<mapsto> Data file)\<rparr>)"
  using assms by (simp add: extract_step_def extractFile_def Let_def)

lemma step_count_limit:
  "MaxExtractedFiles cfg \<le> fileCount st \<Longrightarrow>
     extract_step cfg wd clock uploadID dir n st file
       = Abort MaxFilesExceeded
           (fail_import (''exceeded max extracted files: '' @ show_int (MaxExtractedFiles cfg)) st)"
  by (simp add: extract_step_def)

lemma import_records_fail_import:
  "import_records (est_db st) = [x] \<Longrightarrow> imp_ID x = imp_ID (importRecord st) \<Longrightarrow>
     map imp_Status (import_records (est_db (fail_import msg st))) = [''failed'']"
  by (simp add: fail_import_def Let_def save_import_def)

lemma ExtractUpload_completes:
  assumes "find (\<lambda>u. up_ID u = uploadID \<and> DeletedAt u = None) (uploads d) = Some upload"
    and "find (\<lambda>i. imp_UploadID i = uploadID) (import_records d) = Some found"
    and "archive (StoredPath upload) = Some zfiles" and "mkdir_ok"
    and "extract_files cfg wd clock uploadID (Join (ExtractedDir cfg) (UUID upload))
           (length zfiles) zfiles
           \<lparr>totalSize = 0, fileCount = 0, extractedFiles = [],
            importRecord = found\<lparr>imp_Status := ''extracting'', ProgressPercent := 10\<rparr>,
            est_db = save_import (found\<lparr>imp_Status := ''extracting'', ProgressPercent := 10\<rparr>) d,
            est_fs = files\<rparr> = (None, st)"
  shows "ExtractUpload cfg wd clock archive mkdir_ok uploadID (d, files)
           = (None,
              save_import ((importRecord st)\<lparr>imp_Status := ''parsing'', ProgressPercent := 40\<rparr>)
                (create_extractions (extractedFiles st) (est_db st)),
              est_fs st)"
  using assms by (simp add: ExtractUpload_def Let_def)

lemma ExtractUpload_aborts:
  assumes "find (\<lambda>u. up_ID u = uploadID \<and> DeletedAt u = None) (uploads d) = Some upload"
    and "find (\<lambda>i. imp_UploadID i = uploadID) (import_records d) = Some found"
    and "archive (StoredPath upload) = Some zfiles" and "mkdir_ok"
    and "extract_files cfg wd clock uploadID (Join (ExtractedDir cfg) (UUID upload))
           (length zfiles) zfiles
           \<lparr>totalSize = 0, fileCount = 0, extractedFiles = [],
            importRecord = found\<lparr>imp_Status := ''extracting'', ProgressPercent := 10\<rparr>,
            est_db = save_import (found\<lparr>imp_Status := ''extracting'', ProgressPercent := 10\<rparr>) d,
            est_fs = files\<rparr> = (Some e, st)"
  shows "ExtractUpload cfg wd clock archive mkdir_ok uploadID (d, files)
           = (Some e, est_db st, est_fs st)"
  using assms by (simp add: ExtractUpload_def Let_def)

lemma extractions_save_import: "extractions (save_import r d) = extractions d"
  by (simp add: save_import_def)

lemma paths_create_extractions:
  "map FilePath (extractions (create_extractions xs d))
     = map FilePath (extractions d) @ map FilePath xs"
proof -
  have "map FilePath (map (\<lambda>(i, x). x\<lparr>ext_ID := k + i\<rparr>) (enumerate 0 xs)) = map FilePath xs" for k
    by (induction xs rule: rev_induct) (simp_all add: enumerate_append_eq)
  then show ?thesis
    by (simp add: create_extractions_def Let_def)
qed

text \<open>
  Claim C1, as the code has it. The extraction directory is the configured directory,
  which \<open>config.resolvePaths\<close> makes absolute, joined with the upload's UUID. The name
  of an entry is normalised as \<open>sanitizePath\<close> does it: cleaned, and its leading
  separators removed. An entry met below the file-count limit whose normalised name
  has a parent-directory segment, is absolute, or joined with the extraction directory
  is not within it, is rejected by \<open>sanitizePath\<close>; its iteration leaves the state of
  the loop as it was, so no byte is written and no extraction record added for it, and
  the loop goes on with the remaining entries from that state.
\<close>

theorem unsafe_entry_is_skipped:
  assumes "IsAbs (ExtractedDir cfg)"
    and "fileCount st < MaxExtractedFiles cfg"
    and "leaves (Join (ExtractedDir cfg) uuid) (sanitize_clean (Name file))"
  shows "(\<exists>e. sanitizePath wd (Name file) (Join (ExtractedDir cfg) uuid) = Inl e)
    \<and> extract_step cfg wd clock uploadID (Join (ExtractedDir cfg) uuid) n st file = Continue st
    \<and> extract_files cfg wd clock uploadID (Join (ExtractedDir cfg) uuid) n (file # files) st
        = extract_files cfg wd clock uploadID (Join (ExtractedDir cfg) uuid) n files st"
proof -
  obtain e where e: "sanitizePath wd (Name file) (Join (ExtractedDir cfg) uuid) = Inl e"
    using escaping_rejected [OF IsAbs_Join [OF assms(1)] assms(3)] by blast
  show ?thesis
    using e step_rejected [OF assms(2) e] by simp
qed

text \<open>Runs of \<open>ExtractUpload\<close> on the example store, for an archive \<open>zs\<close>.\<close>

lemma ex_init:
  "\<lparr>totalSize = 0, fileCount = 0, extractedFiles = [],
     importRecord = ex_import\<lparr>imp_Status := ''extracting'', ProgressPercent := 10\<rparr>,
     est_db = save_import (ex_import\<lparr>imp_Status := ''extracting'', ProgressPercent := 10\<rparr>) ex_db,
     est_fs = Map.empty\<rparr> = ex_extract_state"
  by (simp add: ex_extract_state_def save_import_def ex_db_def)

lemma ex_found:
  "find (\<lambda>u. up_ID u = 1 \<and> DeletedAt u = None) (uploads ex_db) = Some ex_upload"
  "find (\<lambda>i. imp_UploadID i = 1) (import_records ex_db) = Some ex_import"
  by (simp_all add: ex_db_def ex_upload_def ex_import_def)

lemma ex_upload_dir: "Join (ExtractedDir ex_cfg) (UUID ex_upload) = ''/data/extracted/u1''"
  using ex_dir by (simp add: ex_upload_def)

lemma ex_state_imports:
  "import_records (est_db ex_extract_state) = [importRecord ex_extract_state]"
  by (simp add: ex_extract_state_def)

lemma ex_run_completes:
  assumes "ExtractedDir cfg = ExtractedDir ex_cfg"
    and "extract_files cfg None 0 1 ''/data/extracted/u1'' (length zs) zs ex_extract_state
           = (None, st)"
  shows "ExtractUpload cfg None 0 (\<lambda>p. Some zs) True 1 (ex_db, Map.empty)
           = (None,
              save_import ((importRecord st)\<lparr>imp_Status := ''parsing'', ProgressPercent := 40\<rparr>)
                (create_extractions (extractedFiles st) (est_db st)),
              est_fs st)"
proof -
  have arch: "(\<lambda>p. Some zs) (StoredPath ex_upload) = Some zs"
    by simp
  have loop: "extract_files cfg None 0 1 (Join (ExtractedDir cfg) (UUID ex_upload))
           (length zs) zs
           \<lparr>totalSize = 0, fileCount = 0, extractedFiles = [],
            importRecord = ex_import\<lparr>imp_Status := ''extracting'', ProgressPercent := 10\<rparr>,
            est_db = save_import (ex_import\<lparr>imp_Status := ''extracting'', ProgressPercent := 10\<rparr>) ex_db,
            est_fs = Map.empty\<rparr> = (None, st)"
    unfolding ex_init assms(1) ex_upload_dir by (rule assms(2))
  show ?thesis
    by (rule ExtractUpload_completes [OF ex_found arch _ loop]) simp
qed

lemma ex_run_aborts:
  assumes "ExtractedDir cfg = ExtractedDir ex_cfg"
    and "extract_files cfg None 0 1 ''/data/extracted/u1'' (length zs) zs ex_extract_state
           = (Some e, st)"
  shows "ExtractUpload cfg None 0 (\<lambda>p. Some zs) True 1 (ex_db, Map.empty)
           = (Some e, est_db st, est_fs st)"
proof -
  have arch: "(\<lambda>p. Some zs) (StoredPath ex_upload) = Some zs"
    by simp
  have loop: "extract_files cfg None 0 1 (Join (ExtractedDir cfg) (UUID ex_upload))
           (length zs) zs
           \<lparr>totalSize = 0, fileCount = 0, extractedFiles = [],
            importRecord = ex_import\<lparr>imp_Status := ''extracting'', ProgressPercent := 10\<rparr>,
            est_db = save_import (ex_import\<lparr>imp_Status := ''extracting'', ProgressPercent := 10\<rparr>) ex_db,
            est_fs = Map.empty\<rparr> = (Some e, st)"
    unfolding ex_init assms(1) ex_upload_dir by (rule assms(2))
  show ?thesis
    by (rule ExtractUpload_aborts [OF ex_found arch _ loop]) simp
qed

lemma sanitize_small:
  "sanitizePath None (Name small_entry) ''/data/extracted/u1'' = Inr ''/data/extracted/u1/a.txt''"
  by (simp add: small_entry_def sanitizePath_def path_eval del: split_sep.simps(2))

lemma small_step:
  assumes "0 < MaxExtractedFiles cfg" and "\<not> MaxExtractionSize cfg < 10"
  shows "extract_step cfg None 0 1 ''/data/extracted/u1'' n ex_extract_state small_entry
     = Continue
        (ex_extract_state
          \<lparr>totalSize := 10, fileCount := 1,
           extractedFiles :=
             [\<lparr>ext_ID = 0, ext_UploadID = 1, FilePath = ''/data/extracted/u1/a.txt'',
               FileType = determineFileType ''a.txt'', ext_FileSize = 10,
               ExtractedAt = 0, ext_Status = ''extracted''\<rparr>],
           importRecord := (importRecord ex_extract_state)
             \<lparr>ProgressPercent := 10 + 30 div int n\<rparr>,
           est_db := save_import
             ((importRecord ex_extract_state)\<lparr>ProgressPercent := 10 + 30 div int n\<rparr>)
             (est_db ex_extract_state),
           est_fs := [''/data/extracted/u1/a.txt'' \<mapsto> ''0123456789'']\<rparr>)"
proof -
  have c0: "fileCount ex_extract_state < MaxExtractedFiles cfg"
    using assms(1) by (simp add: ex_extract_state_def)
  have s0: "\<not> MaxExtractionSize cfg < totalSize ex_extract_state + UncompressedSize64 small_entry"
    using assms(2) by (simp add: ex_extract_state_def small_entry_def)
  have o0: "Outcome small_entry = Copied"
    by (simp add: small_entry_def)
  show ?thesis
    using step_copied_state [OF c0 sanitize_small s0 o0, of 0 1 n]
    by (simp add: ex_extract_state_def small_entry_def)
qed

text \<open>
  The theorem at the entry \<open>../../etc/passwd\<close>, followed by a harmless entry: the run
  writes the harmless entry and nothing else, and records it alone.
\<close>

theorem unsafe_entry_is_skipped_witness:
  "IsAbs (ExtractedDir ex_cfg)
   \<and> fileCount ex_extract_state < MaxExtractedFiles ex_cfg
   \<and> leaves (Join (ExtractedDir ex_cfg) ''u1'') (sanitize_clean (Name evil_entry))
   \<and> sanitizePath None (Name evil_entry) ''/data/extracted/u1'' = Inl ContainsDotDot
   \<and> extract_step ex_cfg None 0 1 ''/data/extracted/u1'' 2 ex_extract_state evil_entry
       = Continue ex_extract_state
   \<and> fst (ExtractUpload ex_cfg None 0 (\<lambda>p. Some [evil_entry, small_entry]) True 1
            (ex_db, Map.empty)) = None
   \<and> snd (snd (ExtractUpload ex_cfg None 0 (\<lambda>p. Some [evil_entry, small_entry]) True 1
            (ex_db, Map.empty))) = [''/data/extracted/u1/a.txt'' \<mapsto> ''0123456789'']
   \<and> map FilePath (extractions (fst (snd
        (ExtractUpload ex_cfg None 0 (\<lambda>p. Some [evil_entry, small_entry]) True 1
            (ex_db, Map.empty))))) = [''/data/extracted/u1/a.txt'']"
proof -
  have a: "IsAbs (ExtractedDir ex_cfg)"
    by (simp add: ex_cfg_def IsAbs_def)
  have b: "leaves (Join (ExtractedDir ex_cfg) ''u1'') (sanitize_clean (Name evil_entry))"
    unfolding ex_evil by (simp add: leaves_def has_parent_segment_def)
  have c: "fileCount ex_extract_state < MaxExtractedFiles ex_cfg"
    by (simp add: ex_extract_state_def ex_cfg_def)
  have d: "sanitizePath None (Name evil_entry) ''/data/extracted/u1'' = Inl ContainsDotDot"
    using ex_evil by (simp add: sanitizePath_def)
  have g: "0 < MaxExtractedFiles ex_cfg" "\<not> MaxExtractionSize ex_cfg < 10"
    by (simp_all add: ex_cfg_def)
  note skip = unsafe_entry_is_skipped [OF a c b, of None 0 1 2 "[small_entry]", unfolded ex_dir]
  obtain st where
    loop2: "extract_files ex_cfg None 0 1 ''/data/extracted/u1'' 2 [evil_entry, small_entry]
              ex_extract_state = (None, st)"
    and f: "est_fs st = [''/data/extracted/u1/a.txt'' \<mapsto> ''0123456789'']"
    and x: "map FilePath (extractedFiles st) = [''/data/extracted/u1/a.txt'']"
    and e: "extractions (est_db st) = []"
    using skip small_step [OF g, of 2]
    by (simp add: ex_extract_state_def ex_db_def extractions_save_import)
  have len: "length [evil_entry, small_entry] = 2"
    by simp
  have loop: "extract_files ex_cfg None 0 1 ''/data/extracted/u1''
                (length [evil_entry, small_entry]) [evil_entry, small_entry] ex_extract_state
              = (None, st)"
    unfolding len by (rule loop2)
  show ?thesis
    unfolding ex_run_completes [OF refl loop] using a b c d skip f x e
    by (simp add: paths_create_extractions extractions_save_import)
qed

lemma sanitize_abs:
  "sanitizePath None (Name abs_entry) ''/data/extracted/u1'' = Inr ''/data/extracted/u1/etc/passwd''"
  by (simp add: abs_entry_def sanitizePath_def path_eval del: split_sep.simps(2))

lemma sanitize_dot:
  "sanitizePath None (Name dot_entry) ''/data/extracted/u1'' = Inr ''/data/extracted/u1''"
  by (simp add: dot_entry_def sanitizePath_def path_eval del: split_sep.simps(2))

lemma abs_escapes: "escapes ''/data/extracted/u1'' (Clean (Name abs_entry))"
  by (simp add: escapes_def abs_entry_def path_eval del: split_sep.simps(2))

lemma evil_escapes: "escapes ''/data/extracted/u1'' (Clean (Name evil_entry))"
  by (simp add: escapes_def has_parent_segment_def evil_entry_def path_eval
      del: split_sep.simps(2))

lemma dot_escapes: "escapes ''/data/extracted/u1'' (Clean (Name dot_entry))"
  by (simp add: escapes_def inside_def dot_entry_def path_eval del: split_sep.simps(2))

lemma abs_step:
  "extract_step ex_cfg None 0 1 ''/data/extracted/u1'' n ex_extract_state abs_entry
     = Continue
        (ex_extract_state
          \<lparr>totalSize := 5, fileCount := 1,
           extractedFiles :=
             [\<lparr>ext_ID = 0, ext_UploadID = 1, FilePath = ''/data/extracted/u1/etc/passwd'',
               FileType = determineFileType ''/etc/passwd'', ext_FileSize = 5,
               ExtractedAt = 0, ext_Status = ''extracted''\<rparr>],
           importRecord := (importRecord ex_extract_state)
             \<lparr>ProgressPercent := 10 + 30 div int n\<rparr>,
           est_db := save_import
             ((importRecord ex_extract_state)\<lparr>ProgressPercent := 10 + 30 div int n\<rparr>)
             (est_db ex_extract_state),
           est_fs := [''/data/extracted/u1/etc/passwd'' \<mapsto> ''root:'']\<rparr>)"
proof -
  have c0: "fileCount ex_extract_state < MaxExtractedFiles ex_cfg"
    by (simp add: ex_extract_state_def ex_cfg_def)
  have s0: "\<not> MaxExtractionSize ex_cfg < totalSize ex_extract_state + UncompressedSize64 abs_entry"
    by (simp add: ex_extract_state_def ex_cfg_def abs_entry_def)
  have o0: "Outcome abs_entry = Copied"
    by (simp add: abs_entry_def)
  show ?thesis
    using step_copied_state [OF c0 sanitize_abs s0 o0, of 0 1 n]
    by (simp add: ex_extract_state_def abs_entry_def)
qed

lemma dot_step:
  "extract_step ex_cfg None 0 1 ''/data/extracted/u1'' n ex_extract_state dot_entry
     = Abort MaxSizeExceeded
         (fail_import (''exceeded max extraction size: ''
                         @ show_int (sint (MaxExtractionSize ex_cfg))) ex_extract_state)"
proof -
  have c0: "fileCount ex_extract_state < MaxExtractedFiles ex_cfg"
    by (simp add: ex_extract_state_def ex_cfg_def)
  have s0: "MaxExtractionSize ex_cfg < totalSize ex_extract_state + UncompressedSize64 dot_entry"
    by (simp add: ex_extract_state_def ex_cfg_def dot_entry_def)
  show ?thesis
    using c0 s0 sanitize_dot by (simp add: extract_step_def)
qed

text \<open>
  The claim as the specification states it, with a name normalised by \<open>filepath.Clean\<close>
  and the test in the specification's words, fails at three entries. The absolute name
  \<open>/etc/passwd\<close> is not skipped: its leading separator is removed, and the entry is
  written below the directory and recorded. The entry \<open>../../etc/passwd\<close> met when the
  file-count limit is reached is not passed over: the extraction stops there and the
  import is marked failed, where the archive without that entry is extracted to the
  end. The entry \<open>.\<close>, which resolves to the directory itself and so not strictly
  inside it, is not skipped either: it is accepted, and its declared size, above the
  maximum, stops the extraction.
\<close>

theorem unsafe_entries_not_skipped:
  "escapes ''/data/extracted/u1'' (Clean (Name abs_entry))
   \<and> fst (ExtractUpload ex_cfg None 0 (\<lambda>p. Some [abs_entry]) True 1 (ex_db, Map.empty)) = None
   \<and> snd (snd (ExtractUpload ex_cfg None 0 (\<lambda>p. Some [abs_entry]) True 1 (ex_db, Map.empty)))
       = [''/data/extracted/u1/etc/passwd'' \<mapsto> ''root:'']
   \<and> map FilePath (extractions (fst (snd
        (ExtractUpload ex_cfg None 0 (\<lambda>p. Some [abs_entry]) True 1 (ex_db, Map.empty)))))
       = [''/data/extracted/u1/etc/passwd'']
   \<and> escapes ''/data/extracted/u1'' (Clean (Name evil_entry))
   \<and> fst (ExtractUpload one_file_cfg None 0 (\<lambda>p. Some [small_entry, evil_entry]) True 1
            (ex_db, Map.empty)) = Some MaxFilesExceeded
   \<and> map imp_Status (import_records (fst (snd
        (ExtractUpload one_file_cfg None 0 (\<lambda>p. Some [small_entry, evil_entry]) True 1
            (ex_db, Map.empty))))) = [''failed'']
   \<and> fst (ExtractUpload one_file_cfg None 0 (\<lambda>p. Some [small_entry]) True 1
            (ex_db, Map.empty)) = None
   \<and> escapes ''/data/extracted/u1'' (Clean (Name dot_entry))
   \<and> fst (ExtractUpload ex_cfg None 0 (\<lambda>p. Some [dot_entry]) True 1 (ex_db, Map.empty))
       = Some MaxSizeExceeded
   \<and> map imp_Status (import_records (fst (snd
        (ExtractUpload ex_cfg None 0 (\<lambda>p. Some [dot_entry]) True 1 (ex_db, Map.empty)))))
       = [''failed'']"
proof -
  let ?a = "ExtractUpload ex_cfg None 0 (\<lambda>p. Some [abs_entry]) True 1 (ex_db, Map.empty)"
  let ?b = "ExtractUpload one_file_cfg None 0 (\<lambda>p. Some [small_entry, evil_entry]) True 1
              (ex_db, Map.empty)"
  let ?c = "ExtractUpload one_file_cfg None 0 (\<lambda>p. Some [small_entry]) True 1
              (ex_db, Map.empty)"
  let ?d = "ExtractUpload ex_cfg None 0 (\<lambda>p. Some [dot_entry]) True 1 (ex_db, Map.empty)"
  have cfg1: "ExtractedDir one_file_cfg = ExtractedDir ex_cfg"
    "0 < MaxExtractedFiles one_file_cfg" "\<not> MaxExtractionSize one_file_cfg < 10"
    by (simp_all add: one_file_cfg_def ex_cfg_def)
  have a: "fst ?a = None
           \<and> snd (snd ?a) = [''/data/extracted/u1/etc/passwd'' \<mapsto> ''root:'']
           \<and> map FilePath (extractions (fst (snd ?a))) = [''/data/extracted/u1/etc/passwd'']"
  proof -
    obtain st where
      loop: "extract_files ex_cfg None 0 1 ''/data/extracted/u1'' (length [abs_entry])
               [abs_entry] ex_extract_state = (None, st)"
      and f: "est_fs st = [''/data/extracted/u1/etc/passwd'' \<mapsto> ''root:'']"
      and x: "map FilePath (extractedFiles st) = [''/data/extracted/u1/etc/passwd'']"
      and e: "extractions (est_db st) = []"
      using abs_step [of 1]
      by (simp add: ex_extract_state_def ex_db_def extractions_save_import)
    show ?thesis
      unfolding ex_run_completes [OF refl loop] using f x e
      by (simp add: paths_create_extractions extractions_save_import)
  qed
  have b: "fst ?b = Some MaxFilesExceeded
           \<and> map imp_Status (import_records (fst (snd ?b))) = [''failed'']"
  proof -
    let ?st1 = "ex_extract_state
          \<lparr>totalSize := 10, fileCount := 1,
           extractedFiles :=
             [\<lparr>ext_ID = 0, ext_UploadID = 1, FilePath = ''/data/extracted/u1/a.txt'',
               FileType = determineFileType ''a.txt'', ext_FileSize = 10,
               ExtractedAt = 0, ext_Status = ''extracted''\<rparr>],
           importRecord := (importRecord ex_extract_state)
             \<lparr>ProgressPercent := 10 + 30 div int (length [small_entry, evil_entry])\<rparr>,
           est_db := save_import
             ((importRecord ex_extract_state)
                \<lparr>ProgressPercent := 10 + 30 div int (length [small_entry, evil_entry])\<rparr>)
             (est_db ex_extract_state),
           est_fs := [''/data/extracted/u1/a.txt'' \<mapsto> ''0123456789'']\<rparr>"
    let ?msg = "''exceeded max extracted files: '' @ show_int (MaxExtractedFiles one_file_cfg)"
    have lim: "MaxExtractedFiles one_file_cfg \<le> fileCount ?st1"
      by (simp add: one_file_cfg_def)
    have loop: "extract_files one_file_cfg None 0 1 ''/data/extracted/u1''
                  (length [small_entry, evil_entry]) [small_entry, evil_entry] ex_extract_state
                = (Some MaxFilesExceeded, fail_import ?msg ?st1)"
      using small_step [OF cfg1(2,3), of "length [small_entry, evil_entry]"]
        step_count_limit [OF lim, of None 0 1 "''/data/extracted/u1''"
          "length [small_entry, evil_entry]" evil_entry]
      by simp
    have recs: "import_records (est_db ?st1) = [importRecord ?st1]"
      using ex_state_imports by (simp add: save_import_def)
    show ?thesis
      unfolding ex_run_aborts [OF cfg1(1) loop]
      using import_records_fail_import [OF recs refl, of ?msg] by simp
  qed
  have c: "fst ?c = None"
  proof -
    obtain st where
      loop: "extract_files one_file_cfg None 0 1 ''/data/extracted/u1'' (length [small_entry])
               [small_entry] ex_extract_state = (None, st)"
      using small_step [OF cfg1(2,3), of 1] by simp
    show ?thesis
      unfolding ex_run_completes [OF cfg1(1) loop] by simp
  qed
  have d: "fst ?d = Some MaxSizeExceeded
           \<and> map imp_Status (import_records (fst (snd ?d))) = [''failed'']"
  proof -
    let ?msg = "''exceeded max extraction size: '' @ show_int (sint (MaxExtractionSize ex_cfg))"
    have loop: "extract_files ex_cfg None 0 1 ''/data/extracted/u1'' (length [dot_entry])
                  [dot_entry] ex_extract_state
                = (Some MaxSizeExceeded, fail_import ?msg ex_extract_state)"
      using dot_step [of "length [dot_entry]"] by simp
    show ?thesis
      unfolding ex_run_aborts [OF refl loop]
      using import_records_fail_import [OF ex_state_imports refl, of ?msg] by simp
  qed
  show ?thesis
    using a b c d abs_escapes evil_escapes dot_escapes by blast
qed

section \<open>The size limit of the extraction\<close>

text \<open>
  When the 64-bit sum of the total and the declared size does not wrap around, an
  entry that takes the total above the maximum stops the loop: the import is marked
  failed with the message of the limit, and the files written so far stay.
\<close>

lemma size_limit_aborts:
  assumes "fileCount st < MaxExtractedFiles cfg"
    and "sanitizePath wd (Name file) dir = Inr p"
    and "unat (MaxExtractionSize cfg) < unat (totalSize st) + unat (UncompressedSize64 file)"
    and "unat (totalSize st) + unat (UncompressedSize64 file) < 2 ^ 64"
  shows "extract_step cfg wd clock uploadID dir n st file
           = Abort MaxSizeExceeded
               (fail_import (''exceeded max extraction size: ''
                               @ show_int (sint (MaxExtractionSize cfg))) st)"
proof -
  have "unat (totalSize st + UncompressedSize64 file)
          = unat (totalSize st) + unat (UncompressedSize64 file)"
    using assms(4) unat_add_lem [of "totalSize st" "UncompressedSize64 file"] by simp
  then have "MaxExtractionSize cfg < totalSize st + UncompressedSize64 file"
    using assms(3) by (simp add: word_less_nat_alt)
  then show ?thesis
    using assms(1,2) by (simp add: extract_step_def)
qed

lemma fail_import_keeps_files:
  "est_fs (fail_import msg st) = est_fs st
   \<and> extractedFiles (fail_import msg st) = extractedFiles st
   \<and> imp_Status (importRecord (fail_import msg st)) = ''failed''
   \<and> imp_ErrorMessage (importRecord (fail_import msg st)) = Some msg"
  by (simp add: fail_import_def Let_def)

text \<open>What a step on an entry that passes the checks keeps, whether the copy ends or fails.\<close>

lemma step_copied:
  assumes "fileCount st < MaxExtractedFiles cfg"
    and "sanitizePath wd (Name file) dir = Inr p"
    and "\<not> MaxExtractionSize cfg < totalSize st + UncompressedSize64 file"
    and "Outcome file = Copied"
  shows "\<exists>st'. extract_step cfg wd clock uploadID dir n st file = Continue st'
           \<and> totalSize st' = totalSize st + UncompressedSize64 file
           \<and> fileCount st' = fileCount st + 1
           \<and> length (extractedFiles st') = Suc (length (extractedFiles st))
           \<and> imp_ID (importRecord st') = imp_ID (importRecord st)
           \<and> imp_Status (importRecord st') = imp_Status (importRecord st)
           \<and> imp_ErrorMessage (importRecord st') = imp_ErrorMessage (importRecord st)
           \<and> est_db st' = save_import (importRecord st') (est_db st)
           \<and> est_fs st' = (est_fs st)(p \<mapsto> Data file)"
  using assms by (simp add: extract_step_def extractFile_def Let_def)

lemma step_copy_failed:
  assumes "fileCount st < MaxExtractedFiles cfg"
    and "sanitizePath wd (Name file) dir = Inr p"
    and "\<not> MaxExtractionSize cfg < totalSize st + UncompressedSize64 file"
    and "Outcome file = CopyFailed k"
  shows "extract_step cfg wd clock uploadID dir n st file
           = Continue (st\<lparr>est_fs := (est_fs st)(p \<mapsto> take k (Data file))\<rparr>)"
  using assms by (simp add: extract_step_def extractFile_def)

lemma save_import_single:
  "import_records d = [x] \<Longrightarrow> imp_ID x = imp_ID r \<Longrightarrow> import_records (save_import r d) = [r]"
  by (simp add: save_import_def)

lemma sanitize_huge:
  "sanitizePath None (Name huge_entry) ''/data/extracted/u1'' = Inr ''/data/extracted/u1/b.bin''"
  by (simp add: huge_entry_def sanitizePath_def path_eval del: split_sep.simps(2))

lemma wrapping_loop:
  "\<exists>st. extract_files ex_cfg None 0 1 ''/data/extracted/u1'' 2 [small_entry, huge_entry]
           ex_extract_state = (None, st)
        \<and> totalSize st = 10
        \<and> imp_ID (importRecord st) = 1
        \<and> imp_ErrorMessage (importRecord st) = None
        \<and> import_records (est_db st) = [importRecord st]
        \<and> est_fs st ''/data/extracted/u1/b.bin'' = Some ''xyz''"
proof -
  let ?step = "extract_step ex_cfg None 0 1 ''/data/extracted/u1'' 2"
  have c0: "fileCount ex_extract_state < MaxExtractedFiles ex_cfg"
    by (simp add: ex_extract_state_def ex_cfg_def)
  have s0: "\<not> MaxExtractionSize ex_cfg < totalSize ex_extract_state + UncompressedSize64 small_entry"
    by (simp add: ex_extract_state_def ex_cfg_def small_entry_def)
  have o0: "Outcome small_entry = Copied"
    by (simp add: small_entry_def)
  obtain st1 where 1: "?step ex_extract_state small_entry = Continue st1"
    and t1: "totalSize st1 = totalSize ex_extract_state + UncompressedSize64 small_entry"
    and f1: "fileCount st1 = fileCount ex_extract_state + 1"
    and k1: "imp_ID (importRecord st1) = imp_ID (importRecord ex_extract_state)"
    and e1: "imp_ErrorMessage (importRecord st1) = imp_ErrorMessage (importRecord ex_extract_state)"
    and d1: "est_db st1 = save_import (importRecord st1) (est_db ex_extract_state)"
    using step_copied [OF c0 sanitize_small s0 o0, of 0 1 2] by blast
  have t1': "totalSize st1 = 10"
    using t1 by (simp add: ex_extract_state_def small_entry_def)
  have c1: "fileCount st1 < MaxExtractedFiles ex_cfg"
    using f1 by (simp add: ex_extract_state_def ex_cfg_def)
  have s1: "\<not> MaxExtractionSize ex_cfg < totalSize st1 + UncompressedSize64 huge_entry"
    using t1' by (simp add: ex_cfg_def huge_entry_def)
  have o1: "Outcome huge_entry = CopyFailed 3"
    by (simp add: huge_entry_def)
  let ?st2 = "st1\<lparr>est_fs := (est_fs st1)(''/data/extracted/u1/b.bin'' \<mapsto> take 3 (Data huge_entry))\<rparr>"
  have 2: "?step st1 huge_entry = Continue ?st2"
    by (rule step_copy_failed [OF c1 sanitize_huge s1 o1])
  have r: "extract_files ex_cfg None 0 1 ''/data/extracted/u1'' 2 [small_entry, huge_entry]
             ex_extract_state = (None, ?st2)"
    using 1 2 by simp
  have k: "imp_ID (importRecord st1) = 1"
    using k1 by (simp add: ex_extract_state_def ex_import_def)
  have e: "imp_ErrorMessage (importRecord st1) = None"
    using e1 by (simp add: ex_extract_state_def ex_import_def)
  have i: "import_records (est_db st1) = [importRecord st1]"
    unfolding d1 using k
    by (intro save_import_single
          [where x = "ex_import\<lparr>imp_Status := ''extracting'', ProgressPercent := 10\<rparr>"])
      (simp_all add: ex_extract_state_def ex_import_def)
  have d: "take 3 (Data huge_entry) = ''xyz''"
    by (simp add: huge_entry_def)
  show ?thesis
    using r t1' k e i d by simp
qed

text \<open>
  Claim C4, evaluated where the code departs from it. The maximum is 2 GiB. After an
  entry of 10 bytes, an entry that declares 18446744073709551606 bytes takes the total
  far above the maximum, but the 64-bit sum of the size check is 0: the check passes,
  the entry is written out until the copy fails, \<open>ExtractUpload\<close> returns without an
  error, and the import is not marked failed but set to parsing.
\<close>

theorem size_check_wraps_around:
  "unat (MaxExtractionSize ex_cfg)
     < unat (UncompressedSize64 small_entry) + unat (UncompressedSize64 huge_entry)
   \<and> fst (ExtractUpload ex_cfg None 0 (\<lambda>p. Some [small_entry, huge_entry]) True 1
            (ex_db, Map.empty)) = None
   \<and> map imp_Status (import_records (fst (snd
        (ExtractUpload ex_cfg None 0 (\<lambda>p. Some [small_entry, huge_entry]) True 1
            (ex_db, Map.empty))))) = [''parsing'']
   \<and> map imp_ErrorMessage (import_records (fst (snd
        (ExtractUpload ex_cfg None 0 (\<lambda>p. Some [small_entry, huge_entry]) True 1
            (ex_db, Map.empty))))) = [None]
   \<and> snd (snd (ExtractUpload ex_cfg None 0 (\<lambda>p. Some [small_entry, huge_entry]) True 1
            (ex_db, Map.empty))) ''/data/extracted/u1/b.bin'' = Some ''xyz''"
proof -
  obtain st where l: "extract_files ex_cfg None 0 1 ''/data/extracted/u1'' 2
                        [small_entry, huge_entry] ex_extract_state = (None, st)"
    and k: "imp_ID (importRecord st) = 1"
    and e: "imp_ErrorMessage (importRecord st) = None"
    and i: "import_records (est_db st) = [importRecord st]"
    and f: "est_fs st ''/data/extracted/u1/b.bin'' = Some ''xyz''"
    using wrapping_loop by blast
  let ?r = "(importRecord st)\<lparr>imp_Status := ''parsing'', ProgressPercent := 40\<rparr>"
  have u: "find (\<lambda>u. up_ID u = 1 \<and> DeletedAt u = None) (uploads ex_db) = Some ex_upload"
    by (simp add: ex_db_def ex_upload_def)
  have m: "find (\<lambda>i. imp_UploadID i = 1) (import_records ex_db) = Some ex_import"
    by (simp add: ex_db_def ex_import_def)
  have a: "(\<lambda>p. Some [small_entry, huge_entry]) (StoredPath ex_upload)
             = Some [small_entry, huge_entry]"
    by simp
  have dir: "Join (ExtractedDir ex_cfg) (UUID ex_upload) = ''/data/extracted/u1''"
    using ex_dir by (simp add: ex_upload_def)
  have init: "\<lparr>totalSize = 0, fileCount = 0, extractedFiles = [],
            importRecord = ex_import\<lparr>imp_Status := ''extracting'', ProgressPercent := 10\<rparr>,
            est_db = save_import (ex_import\<lparr>imp_Status := ''extracting'', ProgressPercent := 10\<rparr>) ex_db,
            est_fs = Map.empty\<rparr> = ex_extract_state"
    by (simp add: ex_extract_state_def save_import_def ex_db_def)
  have loop: "extract_files ex_cfg None 0 1 (Join (ExtractedDir ex_cfg) (UUID ex_upload))
           (length [small_entry, huge_entry]) [small_entry, huge_entry]
           \<lparr>totalSize = 0, fileCount = 0, extractedFiles = [],
            importRecord = ex_import\<lparr>imp_Status := ''extracting'', ProgressPercent := 10\<rparr>,
            est_db = save_import (ex_import\<lparr>imp_Status := ''extracting'', ProgressPercent := 10\<rparr>) ex_db,
            est_fs = Map.empty\<rparr> = (None, st)"
  proof -
    have len: "length [small_entry, huge_entry] = 2"
      by simp
    show ?thesis
      unfolding init dir len by (rule l)
  qed
  have run: "ExtractUpload ex_cfg None 0 (\<lambda>p. Some [small_entry, huge_entry]) True 1
               (ex_db, Map.empty)
             = (None, save_import ?r (create_extractions (extractedFiles st) (est_db st)),
                est_fs st)"
    by (rule ExtractUpload_completes [OF u m a _ loop]) simp
  have "import_records (create_extractions (extractedFiles st) (est_db st)) = [importRecord st]"
    using i by (simp add: create_extractions_def Let_def)
  then have recs: "import_records (save_import ?r
                      (create_extractions (extractedFiles st) (est_db st))) = [?r]"
    by (intro save_import_single [where x = "importRecord st"]) simp_all
  have w: "unat (MaxExtractionSize ex_cfg)
             < unat (UncompressedSize64 small_entry) + unat (UncompressedSize64 huge_entry)"
    by (simp add: ex_cfg_def small_entry_def huge_entry_def)
  show ?thesis
    unfolding run using recs e f w by simp
qed

section \<open>Threads by date\<close>

text \<open>Batches, sorted buckets, and the rows that the batch writes add.\<close>

lemma concat_batches: "concat (batches xs) = xs"
proof (induction xs rule: batches.induct)
  case (1 xs)
  show ?case
  proof (cases "xs = []")
    case True
    then show ?thesis by (simp add: batches.simps)
  next
    case False
    then have "concat (batches xs) = take 1000 xs @ concat (batches (drop 1000 xs))"
      by (subst batches.simps) simp
    then show ?thesis using 1 False by simp
  qed
qed

lemma batches_Nil [simp]: "batches [] = []"
  by (simp add: batches.simps)

lemma sorted_hd_le:
  "sorted (map f s) \<Longrightarrow> m \<in> set s \<Longrightarrow> f (hd s) \<le> f m"
  by (cases s) auto

lemma sorted_le_last:
  "sorted (map f s) \<Longrightarrow> m \<in> set s \<Longrightarrow> f m \<le> f (last s)"
proof (induction s)
  case Nil
  then show ?case by simp
next
  case (Cons a s)
  then show ?case by (cases "s = []") auto
qed

lemma thread_exists_count: "thread_exists d c date \<longleftrightarrow> thread_count d c date \<noteq> 0"
  by (auto simp: thread_exists_def thread_count_def find_None_iff filter_empty_conv)

lemma build_threads_result:
  assumes "\<forall>msg \<in> set msgs. msg_ConversationID msg = c"
  shows "build_threads d c msgs ks acc
           = Inr (acc @ map (date_thread c msgs)
                          (filter (\<lambda>date. messagesByDate msgs date \<noteq> []
                                      \<and> \<not> thread_exists d c date) ks))"
proof (induction ks arbitrary: acc)
  case Nil
  show ?case by simp
next
  case (Cons date ks)
  let ?b = "messagesByDate msgs date"
  let ?s = "sort_key Timestamp ?b"
  show ?case
  proof (cases "?b \<noteq> [] \<and> \<not> thread_exists d c date")
    case False
    then show ?thesis using Cons by (auto simp: Let_def)
  next
    case True
    then have ne: "?s \<noteq> []"
      by (metis set_empty set_sort)
    have sub: "set ?s \<subseteq> set msgs"
      by (auto simp: messagesByDate_def)
    have h: "hd ?s \<in> set ?s"
      by (rule hd_in_set [OF ne])
    have l: "last ?s \<in> set ?s"
      by (rule last_in_set [OF ne])
    have conv: "msg_ConversationID (hd ?s) = c" "msg_ConversationID (last ?s) = c"
      using assms sub h l by blast+
    have "Timestamp (hd ?s) \<le> Timestamp (last ?s)"
      using sorted_hd_le [of Timestamp ?s "last ?s"] l by simp
    then show ?thesis
      using True conv Cons [of "acc @ [date_thread c msgs date]"]
      by (simp add: Let_def date_thread_def)
  qed
qed

lemma create_threads_tables:
  "messages (create_threads ts d) = messages d
   \<and> (\<exists>new. threads (create_threads ts d) = threads d @ new
          \<and> map (thr_ID_update (\<lambda>_. 0)) new = map (thr_ID_update (\<lambda>_. 0)) ts)"
proof -
  let ?k = "next_id (map thr_ID (threads d))"
  have "map (thr_ID_update (\<lambda>_. 0)) (map (\<lambda>(i, x). x\<lparr>thr_ID := ?k + i\<rparr>) (enumerate n ts))
          = map (thr_ID_update (\<lambda>_. 0)) ts" for n
    by (induction ts arbitrary: n) (auto simp: enumerate_simps)
  then show ?thesis
    by (simp add: create_threads_def Let_def)
qed

lemma fold_create_threads:
  "messages (fold create_threads bs d) = messages d
   \<and> (\<exists>new. threads (fold create_threads bs d) = threads d @ new
          \<and> map (thr_ID_update (\<lambda>_. 0)) new = map (thr_ID_update (\<lambda>_. 0)) (concat bs))"
proof (induction bs arbitrary: d)
  case Nil
  show ?case by simp
next
  case (Cons b bs)
  obtain n1 where 1: "threads (create_threads b d) = threads d @ n1"
    and e1: "map (thr_ID_update (\<lambda>_. 0)) n1 = map (thr_ID_update (\<lambda>_. 0)) b"
    and m1: "messages (create_threads b d) = messages d"
    using create_threads_tables [of b d] by blast
  obtain n2 where 2: "threads (fold create_threads bs (create_threads b d))
                        = threads (create_threads b d) @ n2"
    and e2: "map (thr_ID_update (\<lambda>_. 0)) n2 = map (thr_ID_update (\<lambda>_. 0)) (concat bs)"
    and m2: "messages (fold create_threads bs (create_threads b d))
               = messages (create_threads b d)"
    using Cons [of "create_threads b d"] by blast
  have "threads (fold create_threads (b # bs) d) = threads d @ (n1 @ n2)"
    using 1 2 by simp
  moreover have "map (thr_ID_update (\<lambda>_. 0)) (n1 @ n2)
                   = map (thr_ID_update (\<lambda>_. 0)) (concat (b # bs))"
    using e1 e2 by simp
  ultimately show ?case
    using m1 m2 by auto
qed

lemma conversation_messages_conv:
  "\<forall>msg \<in> set (conversation_messages d c). msg_ConversationID msg = c"
  by (simp add: conversation_messages_def)

lemma conversation_messages_set:
  "set (conversation_messages d c) = {msg \<in> set (messages d). msg_ConversationID msg = c}"
  by (auto simp: conversation_messages_def)

lemma filter_zero_id:
  assumes "map (thr_ID_update (\<lambda>_. 0)) new = map (thr_ID_update (\<lambda>_. 0)) ts"
    and "\<And>t. P (t\<lparr>thr_ID := 0\<rparr>) = P t"
  shows "length (filter P new) = length (filter P ts)"
proof -
  have "length (filter P xs) = length (filter P (map (thr_ID_update (\<lambda>_. 0)) xs))" for xs
    using assms(2) by (induction xs) auto
  then show ?thesis
    using assms(1) by metis
qed

lemma count_date_threads:
  assumes "distinct F"
  shows "length (filter (\<lambda>t. thr_ConversationID t = c \<and> Date t = date)
                  (map (date_thread c msgs) F))
           = (if date \<in> set F then 1 else 0)"
proof -
  have "(\<lambda>t. thr_ConversationID t = c \<and> Date t = date) \<circ> date_thread c msgs
          = (\<lambda>x. x = date)"
    by (auto simp: fun_eq_iff date_thread_def new_thread_def Let_def)
  then have "length (filter (\<lambda>t. thr_ConversationID t = c \<and> Date t = date)
                      (map (date_thread c msgs) F))
               = length (filter (\<lambda>x. x = date) F)"
    by (simp add: filter_map)
  also have "\<dots> = (if date \<in> set F then 1 else 0)"
    using assms by (induction F) auto
  finally show ?thesis .
qed

lemma bucket_nonempty: "date \<in> set (message_dates msgs) \<longleftrightarrow> messagesByDate msgs date \<noteq> []"
  by (auto simp: message_dates_def messagesByDate_def filter_empty_conv)

lemma createThreads_result:
  "\<exists>d' new. createThreadsForConversation ks c d
              = Inr (int (length (created_dates d c ks)), d')
         \<and> messages d' = messages d
         \<and> threads d' = threads d @ new
         \<and> map (thr_ID_update (\<lambda>_. 0)) new
             = map (thr_ID_update (\<lambda>_. 0))
                 (map (date_thread c (conversation_messages d c)) (created_dates d c ks))"
proof (cases "conversation_messages d c = []")
  case True
  then have "created_dates d c ks = []"
    by (simp add: created_dates_def messagesByDate_def)
  then show ?thesis
    using True by (simp add: createThreadsForConversation_def)
next
  case False
  let ?ts = "map (date_thread c (conversation_messages d c)) (created_dates d c ks)"
  have b: "build_threads d c (conversation_messages d c) ks [] = Inr ?ts"
    using build_threads_result [OF conversation_messages_conv, where ks = ks and acc = "[]"]
    by (simp add: created_dates_def)
  show ?thesis
    using False b fold_create_threads [of "batches ?ts" d]
    by (simp add: createThreadsForConversation_def concat_batches)
qed

text \<open>The run on the example store, step by step.\<close>

lemma ex_dates:
  "format_date (unix 1705320000) = ''2024-01-15''"
  "format_date (unix 1705316400) = ''2024-01-15''"
  "format_date (unix 1705406400) = ''2024-01-16''"
  by code_simp+

lemma thread_db_messages:
  "conversation_messages thread_db 1
     = [ex_message 2 1 1 ''assistant'' 1705316400, ex_message 1 1 0 ''user'' 1705320000,
        ex_message 3 1 2 ''user'' 1705406400]"
  by (simp add: conversation_messages_def thread_db_def ex_message_def unix_def)

lemma thread_db_buckets:
  "messagesByDate (conversation_messages thread_db 1) ''2024-01-15''
     = [ex_message 2 1 1 ''assistant'' 1705316400, ex_message 1 1 0 ''user'' 1705320000]"
  "messagesByDate (conversation_messages thread_db 1) ''2024-01-16''
     = [ex_message 3 1 2 ''user'' 1705406400]"
  unfolding thread_db_messages
  by (simp_all add: messagesByDate_def ex_message_def ex_dates)

lemma thread_db_sorted:
  "sort_key Timestamp [ex_message 2 1 1 ''assistant'' 1705316400, ex_message 1 1 0 ''user'' 1705320000]
     = [ex_message 2 1 1 ''assistant'' 1705316400, ex_message 1 1 0 ''user'' 1705320000]"
  "sort_key Timestamp [ex_message 3 1 2 ''user'' 1705406400] = [ex_message 3 1 2 ''user'' 1705406400]"
  by (simp_all add: ex_message_def unix_def)

lemma thread_db_no_threads: "thread_exists thread_db 1 date = False"
  by (simp add: thread_exists_def thread_db_def)

lemma thread_db_build:
  "build_threads thread_db 1 (conversation_messages thread_db 1)
       [''2024-01-16'', ''2024-01-15''] []
     = Inr [new_thread 1 ''2024-01-16'' [ex_message 3 1 2 ''user'' 1705406400]
              (ex_message 3 1 2 ''user'' 1705406400) (ex_message 3 1 2 ''user'' 1705406400),
            new_thread 1 ''2024-01-15''
              [ex_message 2 1 1 ''assistant'' 1705316400, ex_message 1 1 0 ''user'' 1705320000]
              (ex_message 2 1 1 ''assistant'' 1705316400) (ex_message 1 1 0 ''user'' 1705320000)]"
  by (simp add: thread_db_buckets thread_db_sorted thread_db_no_threads Let_def
      del: One_nat_def)
    (simp add: ex_message_def unix_def)

lemma batches_small: "xs \<noteq> [] \<Longrightarrow> length xs \<le> 1000 \<Longrightarrow> batches xs = [xs]"
  by (subst batches.simps) simp

lemma thread_db_run:
  "createThreadsForConversation [''2024-01-16'', ''2024-01-15''] 1 thread_db
     = Inr (2, thread_db_after)"
proof -
  let ?ts = "[new_thread 1 ''2024-01-16'' [ex_message 3 1 2 ''user'' 1705406400]
              (ex_message 3 1 2 ''user'' 1705406400) (ex_message 3 1 2 ''user'' 1705406400),
            new_thread 1 ''2024-01-15''
              [ex_message 2 1 1 ''assistant'' 1705316400, ex_message 1 1 0 ''user'' 1705320000]
              (ex_message 2 1 1 ''assistant'' 1705316400) (ex_message 1 1 0 ''user'' 1705320000)]"
  have ne: "conversation_messages thread_db 1 \<noteq> []"
    by (simp add: thread_db_messages del: One_nat_def)
  have b: "batches ?ts = [?ts]"
    by (rule batches_small) simp_all
  have f: "fold create_threads [?ts] thread_db = thread_db_after"
    by (simp add: create_threads_def next_id_def enumerate_simps new_thread_def
        thread_db_after_def thread_db_def ex_message_def)
  show ?thesis
    unfolding createThreadsForConversation_def Let_def thread_db_build
    using ne b f by (simp del: One_nat_def)
qed

lemma thread_db_dates:
  "message_dates (conversation_messages thread_db 1) = [''2024-01-15'', ''2024-01-16'']"
  unfolding thread_db_messages
  by (simp add: message_dates_def ex_message_def ex_dates)

lemma thread_db_by_index:
  "map msg_ID (sort_key MessageIndex
      (messagesByDate (conversation_messages thread_db 1) ''2024-01-15'')) = [1, 2]"
  unfolding thread_db_buckets by (simp add: ex_message_def)

text \<open>
  Claim C5. The loop ranges over the dates of the conversation's messages, each once;
  \<open>ks\<close> and \<open>ks'\<close> are the orders of the map in a run and in the next. A run never
  fails. After it the store holds exactly one thread for each date of the conversation
  that had none, and as many as before for every other date; the next run creates no
  thread and leaves the store as it is.
\<close>

theorem one_thread_per_date:
  assumes "distinct ks" and "set ks = set (message_dates (conversation_messages d c))"
    and "distinct ks'" and "set ks' = set (message_dates (conversation_messages d c))"
  shows "\<exists>n d'. createThreadsForConversation ks c d = Inr (n, d')
           \<and> (\<forall>date. thread_count d' c date
                 = (if date \<in> set ks \<and> thread_count d c date = 0 then 1
                    else thread_count d c date))
           \<and> createThreadsForConversation ks' c d' = Inr (0, d')"
proof -
  let ?msgs = "conversation_messages d c"
  let ?F = "created_dates d c ks"
  obtain d' new where run: "createThreadsForConversation ks c d = Inr (int (length ?F), d')"
    and m: "messages d' = messages d" and t: "threads d' = threads d @ new"
    and z: "map (thr_ID_update (\<lambda>_. 0)) new
              = map (thr_ID_update (\<lambda>_. 0)) (map (date_thread c ?msgs) ?F)"
    using createThreads_result [of ks c d] by blast
  have count: "thread_count d' c date
                 = (if date \<in> set ks \<and> thread_count d c date = 0 then 1
                    else thread_count d c date)" for date
  proof -
    have "length (filter (\<lambda>t. thr_ConversationID t = c \<and> Date t = date) new)
            = length (filter (\<lambda>t. thr_ConversationID t = c \<and> Date t = date)
                        (map (date_thread c ?msgs) ?F))"
      by (rule filter_zero_id [OF z]) simp
    also have "\<dots> = (if date \<in> set ?F then 1 else 0)"
      using assms(1) by (intro count_date_threads) (simp add: created_dates_def)
    finally have n: "length (filter (\<lambda>t. thr_ConversationID t = c \<and> Date t = date) new)
                       = (if date \<in> set ?F then 1 else 0)" .
    have F: "date \<in> set ?F \<longleftrightarrow> date \<in> set ks \<and> thread_count d c date = 0"
      using assms(2) bucket_nonempty [of date ?msgs]
      by (auto simp: created_dates_def thread_exists_count)
    show ?thesis
      using n F t by (simp add: thread_count_def)
  qed
  have msgs': "conversation_messages d' c = ?msgs"
    using m by (simp add: conversation_messages_def)
  have "created_dates d' c ks' = []"
  proof -
    have "thread_count d' c date \<noteq> 0" if "date \<in> set ks'" for date
      using that count [of date] assms(2,4) by auto
    then show ?thesis
      by (auto simp: created_dates_def filter_empty_conv thread_exists_count)
  qed
  then have "build_threads d' c (conversation_messages d' c) ks' [] = Inr []"
    using build_threads_result [OF conversation_messages_conv [of d' c], where d = d'
        and ks = ks' and acc = "[]"]
    by (simp add: created_dates_def)
  then have rerun: "createThreadsForConversation ks' c d' = Inr (0, d')"
    by (simp add: createThreadsForConversation_def Let_def)
  show ?thesis
    using run count rerun by blast
qed

theorem one_thread_per_date_witness:
  "distinct [''2024-01-16'', ''2024-01-15'']
   \<and> set [''2024-01-16'', ''2024-01-15'']
       = set (message_dates (conversation_messages thread_db 1))
   \<and> (\<exists>n d'. createThreadsForConversation [''2024-01-16'', ''2024-01-15''] 1 thread_db
                  = Inr (n, d')
          \<and> thread_count thread_db 1 ''2024-01-15'' = 0
          \<and> thread_count d' 1 ''2024-01-15'' = 1
          \<and> thread_count d' 1 ''2024-01-16'' = 1
          \<and> createThreadsForConversation [''2024-01-15'', ''2024-01-16''] 1 d' = Inr (0, d'))"
proof -
  have 1: "distinct [''2024-01-16'', ''2024-01-15'']"
    by simp
  have 2: "set [''2024-01-16'', ''2024-01-15'']
             = set (message_dates (conversation_messages thread_db 1))"
    unfolding thread_db_dates by auto
  have 3: "distinct [''2024-01-15'', ''2024-01-16'']"
    by simp
  have 4: "set [''2024-01-15'', ''2024-01-16'']
             = set (message_dates (conversation_messages thread_db 1))"
    unfolding thread_db_dates by auto
  have 0: "thread_count thread_db 1 date = 0" for date
    by (simp add: thread_count_def thread_db_def)
  show ?thesis
    using one_thread_per_date [OF 1 2 3 4] 1 2 0 by auto
qed

text \<open>
  Claim C6, as the code has it. The bucket of a date is sorted by timestamp, and the
  thread refers to its first and last message in that order: for every thread that a
  run creates, the start and end references are messages of the thread's conversation
  and date, no message of that conversation and date is older than the start or newer
  than the end, the thread's instants are theirs, and the start instant is not after
  the end instant.
\<close>

theorem thread_bounds_by_timestamp:
  "\<exists>n d' new. createThreadsForConversation ks c d = Inr (n, d')
     \<and> threads d' = threads d @ new
     \<and> (\<forall>t \<in> set new. \<exists>s e.
           s \<in> set (messages d) \<and> e \<in> set (messages d)
           \<and> StartMessageID t = Some (msg_ID s) \<and> EndMessageID t = Some (msg_ID e)
           \<and> thr_ConversationID t = c
           \<and> msg_ConversationID s = c \<and> msg_ConversationID e = c
           \<and> format_date (Timestamp s) = Date t \<and> format_date (Timestamp e) = Date t
           \<and> (\<forall>msg \<in> set (messages d).
                 msg_ConversationID msg = c \<and> format_date (Timestamp msg) = Date t
                 \<longrightarrow> Timestamp s \<le> Timestamp msg \<and> Timestamp msg \<le> Timestamp e)
           \<and> StartTimestamp t = Timestamp s \<and> EndTimestamp t = Timestamp e
           \<and> StartTimestamp t \<le> EndTimestamp t)"
proof -
  let ?msgs = "conversation_messages d c"
  let ?F = "created_dates d c ks"
  let ?z = "thr_ID_update (\<lambda>_. 0)"
  obtain d' new where run: "createThreadsForConversation ks c d = Inr (int (length ?F), d')"
    and t: "threads d' = threads d @ new"
    and z: "map ?z new = map ?z (map (date_thread c ?msgs) ?F)"
    using createThreads_result [of ks c d] by blast
  have each: "\<exists>s e.
           s \<in> set (messages d) \<and> e \<in> set (messages d)
           \<and> StartMessageID t = Some (msg_ID s) \<and> EndMessageID t = Some (msg_ID e)
           \<and> thr_ConversationID t = c
           \<and> msg_ConversationID s = c \<and> msg_ConversationID e = c
           \<and> format_date (Timestamp s) = Date t \<and> format_date (Timestamp e) = Date t
           \<and> (\<forall>msg \<in> set (messages d).
                 msg_ConversationID msg = c \<and> format_date (Timestamp msg) = Date t
                 \<longrightarrow> Timestamp s \<le> Timestamp msg \<and> Timestamp msg \<le> Timestamp e)
           \<and> StartTimestamp t = Timestamp s \<and> EndTimestamp t = Timestamp e
           \<and> StartTimestamp t \<le> EndTimestamp t" if "t \<in> set new" for t
  proof -
    have "?z t \<in> set (map ?z new)"
      using that by simp
    then obtain date where dF: "date \<in> set ?F" and eq: "?z t = ?z (date_thread c ?msgs date)"
      unfolding z by auto
    let ?b = "messagesByDate ?msgs date"
    let ?s = "sort_key Timestamp ?b"
    have ne: "?s \<noteq> []"
      using dF by (metis (mono_tags, lifting) created_dates_def mem_Collect_eq set_empty
          set_filter set_sort)
    have h: "hd ?s \<in> set ?s"
      by (rule hd_in_set [OF ne])
    have l: "last ?s \<in> set ?s"
      by (rule last_in_set [OF ne])
    have bset: "set ?s = {msg \<in> set (messages d). msg_ConversationID msg = c
                            \<and> format_date (Timestamp msg) = date}"
      by (auto simp: messagesByDate_def conversation_messages_def)
    have srt: "sorted (map Timestamp ?s)"
      by (rule sorted_sort_key)
    have fields: "StartMessageID t = Some (msg_ID (hd ?s))"
      "EndMessageID t = Some (msg_ID (last ?s))"
      "thr_ConversationID t = c" "Date t = date"
      "StartTimestamp t = Timestamp (hd ?s)" "EndTimestamp t = Timestamp (last ?s)"
    proof -
      have *: "f t = f (date_thread c ?msgs date)"
        if "\<And>x. f (?z x) = f x" for f :: "Thread \<Rightarrow> 'a"
        using eq that by metis
      show "StartMessageID t = Some (msg_ID (hd ?s))"
        using * [of StartMessageID] by (simp add: date_thread_def new_thread_def Let_def)
      show "EndMessageID t = Some (msg_ID (last ?s))"
        using * [of EndMessageID] by (simp add: date_thread_def new_thread_def Let_def)
      show "thr_ConversationID t = c"
        using * [of thr_ConversationID] by (simp add: date_thread_def new_thread_def Let_def)
      show "Date t = date"
        using * [of Date] by (simp add: date_thread_def new_thread_def Let_def)
      show "StartTimestamp t = Timestamp (hd ?s)"
        using * [of StartTimestamp] by (simp add: date_thread_def new_thread_def Let_def)
      show "EndTimestamp t = Timestamp (last ?s)"
        using * [of EndTimestamp] by (simp add: date_thread_def new_thread_def Let_def)
    qed
    have lo: "\<forall>msg \<in> set ?s. Timestamp (hd ?s) \<le> Timestamp msg"
      using sorted_hd_le [OF srt] by blast
    have hi: "\<forall>msg \<in> set ?s. Timestamp msg \<le> Timestamp (last ?s)"
      using sorted_le_last [OF srt] by blast
    have "Timestamp (hd ?s) \<le> Timestamp (last ?s)"
      using lo l by blast
    then show ?thesis
      using h l lo hi fields unfolding bset
      by (intro exI [of _ "hd ?s"] exI [of _ "last ?s"]) auto
  qed
  show ?thesis
    using run t each by blast
qed

theorem thread_bounds_by_timestamp_witness:
  "\<exists>new. threads thread_db_after = threads thread_db @ new \<and> length new = 2
     \<and> (\<forall>t \<in> set new. thr_ConversationID t = 1 \<and> StartTimestamp t \<le> EndTimestamp t
           \<and> (\<exists>s \<in> set (messages thread_db).
                 StartMessageID t = Some (msg_ID s) \<and> msg_ConversationID s = 1))"
proof -
  obtain n d' new where r: "createThreadsForConversation [''2024-01-16'', ''2024-01-15''] 1 thread_db
                             = Inr (n, d')"
    and t: "threads d' = threads thread_db @ new"
    and b: "\<forall>t \<in> set new. \<exists>s e.
           s \<in> set (messages thread_db) \<and> e \<in> set (messages thread_db)
           \<and> StartMessageID t = Some (msg_ID s) \<and> EndMessageID t = Some (msg_ID e)
           \<and> thr_ConversationID t = 1
           \<and> msg_ConversationID s = 1 \<and> msg_ConversationID e = 1
           \<and> format_date (Timestamp s) = Date t \<and> format_date (Timestamp e) = Date t
           \<and> (\<forall>msg \<in> set (messages thread_db).
                 msg_ConversationID msg = 1 \<and> format_date (Timestamp msg) = Date t
                 \<longrightarrow> Timestamp s \<le> Timestamp msg \<and> Timestamp msg \<le> Timestamp e)
           \<and> StartTimestamp t = Timestamp s \<and> EndTimestamp t = Timestamp e
           \<and> StartTimestamp t \<le> EndTimestamp t"
    using thread_bounds_by_timestamp [of "[''2024-01-16'', ''2024-01-15'']" 1 thread_db]
    by blast
  have d: "d' = thread_db_after"
    using r thread_db_run by simp
  have "length new = 2"
    using t d by (auto simp: thread_db_after_def thread_db_def)
  moreover have "\<forall>t \<in> set new. thr_ConversationID t = 1 \<and> StartTimestamp t \<le> EndTimestamp t
           \<and> (\<exists>s \<in> set (messages thread_db).
                 StartMessageID t = Some (msg_ID s) \<and> msg_ConversationID s = 1)"
    using b by blast
  ultimately show ?thesis
    using t d by blast
qed

text \<open>
  The claim as the specification states it fails when sequence indices and timestamps
  disagree: on the example store the thread of 2024-01-15 starts at message 2 and ends
  at message 1, while message 1 is the first of the bucket by sequence index and
  message 2 the last.
\<close>

theorem thread_start_is_not_first_by_index:
  "createThreadsForConversation [''2024-01-16'', ''2024-01-15''] 1 thread_db
     = Inr (2, thread_db_after)
   \<and> map Date (threads thread_db_after) = [''2024-01-16'', ''2024-01-15'']
   \<and> map StartMessageID (threads thread_db_after) = [Some 3, Some 2]
   \<and> map EndMessageID (threads thread_db_after) = [Some 3, Some 1]
   \<and> map msg_ID (sort_key MessageIndex
         (messagesByDate (conversation_messages thread_db 1) ''2024-01-15'')) = [1, 2]"
  using thread_db_run thread_db_by_index by (simp add: thread_db_after_def)

section \<open>Parsing a conversation again\<close>

lemma save_conversation_existing:
  assumes "r \<in> set (conversations d)" and "distinct (map conv_ID (conversations d))"
  shows "save_conversation now (r\<lparr>conv_MessageCount := conv_MessageCount r\<rparr>) d
           = d\<lparr>conversations :=
                 map (\<lambda>c. if conv_ID c = conv_ID r then c\<lparr>UpdatedAt := now\<rparr> else c)
                   (conversations d)\<rparr>"
proof -
  have "inj_on conv_ID (set (conversations d))"
    using assms(2) by (simp add: distinct_map)
  then have "\<forall>c \<in> set (conversations d).
               (if conv_ID c = conv_ID r then r\<lparr>UpdatedAt := now\<rparr> else c)
                 = (if conv_ID c = conv_ID r then c\<lparr>UpdatedAt := now\<rparr> else c)"
    using assms(1) by (auto dest: inj_onD)
  then have "map (\<lambda>c. if conv_ID c = conv_ID r then r\<lparr>UpdatedAt := now\<rparr> else c) (conversations d)
               = map (\<lambda>c. if conv_ID c = conv_ID r then c\<lparr>UpdatedAt := now\<rparr> else c)
                   (conversations d)"
    by (intro map_cong) auto
  then show ?thesis
    using assms(1) by (simp add: save_conversation_def Let_def)
qed

text \<open>
  Claim C7, as the code has it. When the store holds a conversation of the same upload
  whose identifier is the one this run computes for the export, \<open>processConversation\<close>
  returns that row and its stored message count and leaves the store and the files as
  they are. The caller then saves the row with that count: no conversation and no
  message is created, no message and no other conversation is touched, and of the row
  returned every column is as before but \<open>updated_at\<close>, which the save sets (primary
  keys being unique).
\<close>

theorem reparse_returns_existing:
  assumes "find (\<lambda>c. conv_UploadID c = uploadID
                     \<and> ConversationID c
                         = findRootMessageID (root_order env) (fallback_order env) (Mapping conv))
             (conversations d) = Some existing"
    and "distinct (map conv_ID (conversations d))"
  shows "processConversation env cfg conv uploadID sourcePath (d, files)
           = Some ((existing, conv_MessageCount existing), d, files)
         \<and> parse_conversation env cfg conv uploadID sourcePath (d, files)
           = Some (conv_MessageCount existing,
                   d\<lparr>conversations :=
                       map (\<lambda>c. if conv_ID c = conv_ID existing
                                then c\<lparr>UpdatedAt := saved_at env\<rparr> else c)
                         (conversations d)\<rparr>,
                   files)"
proof -
  have p: "processConversation env cfg conv uploadID sourcePath (d, files)
           = Some ((existing, conv_MessageCount existing), d, files)"
    using assms(1) by (simp add: processConversation_def)
  have "existing \<in> set (conversations d)"
    using assms(1) by (auto simp: find_Some_iff)
  then show ?thesis
    using p save_conversation_existing [OF _ assms(2), of existing "saved_at env"]
    by (simp add: parse_conversation_def)
qed

lemma seen_root:
  "findRootMessageID (root_order ex_parse_env) (fallback_order ex_parse_env)
     (Mapping seen_conversation) = ''r''"
  by (simp add: findRootMessageID_def ex_parse_env_def seen_conversation_def parentless_def
      tree_mapping_def ex_node_def)

lemma seen_found:
  "find (\<lambda>c. conv_UploadID c = 1
             \<and> ConversationID c
                 = findRootMessageID (root_order ex_parse_env)
                     (fallback_order ex_parse_env) (Mapping seen_conversation))
     (conversations seen_db) = Some (hd (conversations seen_db))"
  unfolding seen_root by (simp add: seen_db_def)

text \<open>The theorem at the store that holds the conversation of the example tree.\<close>

theorem reparse_returns_existing_witness:
  "distinct (map conv_ID (conversations seen_db))
   \<and> processConversation ex_parse_env ex_cfg seen_conversation 1
        ''/data/extracted/u1/conversations.json'' (seen_db, Map.empty)
       = Some ((hd (conversations seen_db), 3), seen_db, Map.empty)
   \<and> parse_conversation ex_parse_env ex_cfg seen_conversation 1
        ''/data/extracted/u1/conversations.json'' (seen_db, Map.empty)
       = Some (3,
               seen_db\<lparr>conversations :=
                 [\<lparr>conv_ID = 5, conv_UploadID = 1, ConversationID = ''r'', Title = Some ''Trip'',
                   CreatedAt = unix 1705312800, UpdatedAt = unix 1767225600,
                   SourceFilePath = ''/data/extracted/u1/conversations.json'',
                   conv_MessageCount = 3\<rparr>]\<rparr>,
               Map.empty)"
proof -
  have d: "distinct (map conv_ID (conversations seen_db))"
    by (simp add: seen_db_def)
  have c: "conv_MessageCount (hd (conversations seen_db)) = 3"
    by (simp add: seen_db_def)
  have s: "saved_at ex_parse_env = unix 1767225600"
    by (simp add: ex_parse_env_def)
  have m: "map (\<lambda>c. if conv_ID c = conv_ID (hd (conversations seen_db))
                     then c\<lparr>UpdatedAt := unix 1767225600\<rparr> else c) (conversations seen_db)
             = [\<lparr>conv_ID = 5, conv_UploadID = 1, ConversationID = ''r'', Title = Some ''Trip'',
                 CreatedAt = unix 1705312800, UpdatedAt = unix 1767225600,
                 SourceFilePath = ''/data/extracted/u1/conversations.json'',
                 conv_MessageCount = 3\<rparr>]"
    by (simp add: seen_db_def)
  show ?thesis
    using reparse_returns_existing [OF seen_found d, of ex_cfg
        "''/data/extracted/u1/conversations.json''" Map.empty] d c
    unfolding s m by simp
qed

text \<open>A conversation that the store does not hold yet is created with the identifier computed.\<close>

lemma conversations_create_messages [simp]:
  "conversations (create_messages ms d) = conversations d"
  by (simp add: create_messages_def Let_def)

lemma conversations_fold_create_messages [simp]:
  "conversations (fold create_messages bs d) = conversations d"
  by (induction bs arbitrary: d) simp_all

lemma next_id_fresh: "next_id ids \<notin> set ids"
proof -
  have "fold max ids k \<ge> k \<and> (\<forall>i \<in> set ids. i \<le> fold max ids k)" for k
  proof (induction ids arbitrary: k)
    case Nil
    show ?case by simp
  next
    case (Cons i ids)
    show ?case
      using Cons [of "max i k"] by (auto simp: max_def split: if_splits)
  qed
  then have "\<forall>i \<in> set ids. i < next_id ids"
    by (auto simp: next_id_def less_Suc_eq_le)
  then show ?thesis
    by blast
qed

lemma parse_new_conversation:
  assumes "find (\<lambda>c. conv_UploadID c = uploadID
                     \<and> ConversationID c
                         = findRootMessageID (root_order env) (fallback_order env) (Mapping conv))
             (conversations d) = None"
    and "processMessages (stack_depth env) (clock_now env) (messages_order env) (Mapping conv)
           (next_id (map conv_ID (conversations d))) = Some msgs"
  shows "\<exists>d' files'.
           parse_conversation env cfg conv uploadID sourcePath (d, files)
             = Some (int (length msgs), d', files')
           \<and> map ConversationID (conversations d')
               = map ConversationID (conversations d)
                   @ [findRootMessageID (root_order env) (fallback_order env) (Mapping conv)]
           \<and> map conv_ID (conversations d')
               = map conv_ID (conversations d) @ [next_id (map conv_ID (conversations d))]"
proof -
  let ?k = "next_id (map conv_ID (conversations d))"
  have fresh: "\<forall>c \<in> set (conversations d). conv_ID c \<noteq> ?k"
    using next_id_fresh [of "map conv_ID (conversations d)"] by (metis image_eqI list.set_map)
  then have keep: "map (\<lambda>c. if conv_ID c = ?k then r else c) (conversations d) = conversations d"
    for r
    by (intro map_idI) auto
  show ?thesis
    using assms keep
    by (simp add: parse_conversation_def processConversation_def create_conversation_def
        save_conversation_def Let_def)
qed

lemma two_roots_any_depth:
  assumes "0 < n"
  shows "processMessages n ex_clock [''a'', ''b''] two_roots_mapping c
           = Some [new_message ex_clock c 0 (ex_msg ''a'' ''user'' ''finished_successfully'' 1705312800)]"
    and "processMessages n ex_clock [''b'', ''a''] two_roots_mapping c
           = Some [new_message ex_clock c 0 (ex_msg ''b'' ''user'' ''finished_successfully'' 1705312860)]"
proof -
  obtain k where n: "n = Suc k"
    using assms by (cases n) auto
  show "processMessages n ex_clock [''a'', ''b''] two_roots_mapping c
           = Some [new_message ex_clock c 0 (ex_msg ''a'' ''user'' ''finished_successfully'' 1705312800)]"
    unfolding n
    by (simp add: processMessages_def parentless_def two_roots_mapping_def ex_node_def ex_msg_def
        Let_def)
  show "processMessages n ex_clock [''b'', ''a''] two_roots_mapping c
           = Some [new_message ex_clock c 0 (ex_msg ''b'' ''user'' ''finished_successfully'' 1705312860)]"
    unfolding n
    by (simp add: processMessages_def parentless_def two_roots_mapping_def ex_node_def ex_msg_def
        Let_def)
qed

lemma two_roots_ids:
  "findRootMessageID (root_order ab_env) (fallback_order ab_env) (Mapping two_roots_conversation)
     = ''a''"
  "findRootMessageID (root_order ba_env) (fallback_order ba_env) (Mapping two_roots_conversation)
     = ''b''"
  by (simp_all add: findRootMessageID_def parentless_def two_roots_mapping_def ex_node_def
      ab_env_def ba_env_def two_roots_conversation_def)

lemma find_other_identifier:
  "k \<notin> set (map ConversationID cs) \<Longrightarrow>
     find (\<lambda>c. conv_UploadID c = u \<and> ConversationID c = k) cs = None"
  by (auto simp: find_None_iff)

text \<open>
  The claim as the specification states it fails in two ways. The store holds the
  conversation of the example tree, and parsing its export again returns the row and
  its count, but the store is not as it was: the caller saves the row, and the save
  sets its \<open>updated_at\<close>. And the export with two parentless nodes, parsed on an empty
  store and then parsed again by a run whose map loops meet the keys in the other
  order, is not found under the identifier of the second run: a second conversation is
  created for it.
\<close>

theorem reparse_changes_store:
  "find (\<lambda>c. conv_UploadID c = 1
             \<and> ConversationID c
                 = findRootMessageID (root_order ex_parse_env)
                     (fallback_order ex_parse_env) (Mapping seen_conversation))
     (conversations seen_db) = Some (hd (conversations seen_db))
   \<and> map UpdatedAt (conversations seen_db) = [unix 1705312980]
   \<and> map_option (\<lambda>(n, d, f). map UpdatedAt (conversations d))
        (parse_conversation ex_parse_env ex_cfg seen_conversation 1
           ''/data/extracted/u1/conversations.json'' (seen_db, Map.empty))
       = Some [unix 1767225600]
   \<and> parse_conversation ex_parse_env ex_cfg seen_conversation 1
        ''/data/extracted/u1/conversations.json'' (seen_db, Map.empty)
       \<noteq> Some (3, seen_db, Map.empty)
   \<and> map_option (\<lambda>(n, d, f). map ConversationID (conversations d))
        (parse_conversation ab_env ex_cfg two_roots_conversation 1
           ''/data/extracted/u1/conversations.json'' (empty_db, Map.empty))
       = Some [''a'']
   \<and> Option.bind
        (parse_conversation ab_env ex_cfg two_roots_conversation 1
           ''/data/extracted/u1/conversations.json'' (empty_db, Map.empty))
        (\<lambda>(n, w). map_option (\<lambda>(n', d', f'). map ConversationID (conversations d'))
                     (parse_conversation ba_env ex_cfg two_roots_conversation 1
                        ''/data/extracted/u1/conversations.json'' w))
       = Some [''a'', ''b'']"
proof -
  let ?path = "''/data/extracted/u1/conversations.json''"
  have p: "processConversation ex_parse_env ex_cfg seen_conversation 1 ?path (seen_db, Map.empty)
             = Some ((hd (conversations seen_db), 3), seen_db, Map.empty)"
    using seen_found by (simp add: processConversation_def seen_db_def)
  have r: "parse_conversation ex_parse_env ex_cfg seen_conversation 1 ?path (seen_db, Map.empty)
             = Some (3,
                 seen_db\<lparr>conversations :=
                   [\<lparr>conv_ID = 5, conv_UploadID = 1, ConversationID = ''r'', Title = Some ''Trip'',
                     CreatedAt = unix 1705312800, UpdatedAt = unix 1767225600,
                     SourceFilePath = ''/data/extracted/u1/conversations.json'',
                     conv_MessageCount = 3\<rparr>]\<rparr>,
                 Map.empty)"
    unfolding parse_conversation_def p
    by (simp add: save_conversation_def seen_db_def ex_parse_env_def Let_def)
  have u: "map UpdatedAt (conversations seen_db) = [unix 1705312980]"
    by (simp add: seen_db_def)
  have ne: "parse_conversation ex_parse_env ex_cfg seen_conversation 1 ?path (seen_db, Map.empty)
              \<noteq> Some (3, seen_db, Map.empty)"
    unfolding r by (simp add: seen_db_def unix_def)
  have e1: "find (\<lambda>c. conv_UploadID c = 1
                     \<and> ConversationID c
                         = findRootMessageID (root_order ab_env) (fallback_order ab_env)
                             (Mapping two_roots_conversation))
             (conversations empty_db) = None"
    by (simp add: empty_db_def)
  have m1: "processMessages (stack_depth ab_env) (clock_now ab_env) (messages_order ab_env)
              (Mapping two_roots_conversation) (next_id (map conv_ID (conversations empty_db)))
            = Some [new_message ex_clock (next_id (map conv_ID (conversations empty_db))) 0
                      (ex_msg ''a'' ''user'' ''finished_successfully'' 1705312800)]"
    using two_roots_any_depth(1) [of 100] by (simp add: ab_env_def two_roots_conversation_def)
  obtain n1 d1 f1 where
    1: "parse_conversation ab_env ex_cfg two_roots_conversation 1 ?path (empty_db, Map.empty)
          = Some (n1, d1, f1)"
    and i1: "map ConversationID (conversations d1) = [''a'']"
    using parse_new_conversation [OF e1 m1, of ex_cfg ?path Map.empty] two_roots_ids(1)
    by (auto simp: empty_db_def)
  have e2: "find (\<lambda>c. conv_UploadID c = 1
                     \<and> ConversationID c
                         = findRootMessageID (root_order ba_env) (fallback_order ba_env)
                             (Mapping two_roots_conversation))
             (conversations d1) = None"
    unfolding two_roots_ids(2) using i1 by (intro find_other_identifier) simp
  have m2: "processMessages (stack_depth ba_env) (clock_now ba_env) (messages_order ba_env)
              (Mapping two_roots_conversation) (next_id (map conv_ID (conversations d1)))
            = Some [new_message ex_clock (next_id (map conv_ID (conversations d1))) 0
                      (ex_msg ''b'' ''user'' ''finished_successfully'' 1705312860)]"
    using two_roots_any_depth(2) [of 100] by (simp add: ba_env_def two_roots_conversation_def)
  obtain n2 d2 f2 where
    2: "parse_conversation ba_env ex_cfg two_roots_conversation 1 ?path (d1, f1)
          = Some (n2, d2, f2)"
    and i2: "map ConversationID (conversations d2) = [''a'', ''b'']"
    using parse_new_conversation [OF e2 m2, of ex_cfg ?path f1] two_roots_ids(2) i1
    by auto
  show ?thesis
    using seen_found u r ne 1 i1 2 i2 by simp
qed

section \<open>Uploading the same archive twice\<close>

lemma find_append_last:
  "find P xs = None \<Longrightarrow> P x \<Longrightarrow> find P (xs @ [x]) = Some x"
  by (induction xs) (auto split: if_splits)

lemma first_upload_facts:
  assumes "UploadFile cfg env name content fileSize (d0, files0) = (Inr u, d1, files1)"
  shows "find (\<lambda>x. FileHash x = sha256_hex env content \<and> DeletedAt x = None) (uploads d1)
           = Some u"
proof -
  let ?h = "sha256_hex env content"
  let ?P = "\<lambda>x. FileHash x = ?h \<and> DeletedAt x = None"
  let ?sp = "Join (UploadsDir cfg) (new_uuid env @ ''.zip'')"
  let ?up = "\<lparr>up_ID = 0, UUID = new_uuid env, OriginalFilename = name, StoredPath = ?sp,
              up_FileSize = fileSize, FileHash = ?h, MimeType = ''application/zip'',
              UploadedAt = upload_time env, up_Status = ''pending'', DeletedAt = None\<rparr>"
  have none: "find ?P (uploads d0) = None"
    using assms
    by (auto simp: UploadFile_def Let_def split: if_splits option.splits)
  have cr: "create_upload_records ?up (upload_time env) d0 = Some (u, d1)"
    using assms
    by (auto simp: UploadFile_def Let_def split: if_splits option.splits)
  then have "uploads d1 = uploads d0 @ [u]" and "FileHash u = ?h" and "DeletedAt u = None"
    by (auto simp: create_upload_records_def Let_def split: if_splits)
  then show ?thesis
    using none find_append_last [of ?P "uploads d0" u] by simp
qed







section \<open>The files of user messages by date\<close>

text \<open>Whatever the file held before is kept, after the new block and a blank line.\<close>

lemma former_content_is_kept:
  "existing \<noteq> [] \<Longrightarrow>
     date_file_content date msgs existing
       = date_file_content date msgs [] @ ''\<newline>\<newline>'' @ existing"
  by (simp add: date_file_content_def Let_def)

lemma ex_clocks:
  "format_clock (unix 1705309200) = ''09:00:00''"
  "format_clock (unix 1705312800) = ''10:00:00''"
  "format_date (unix 1705309200) = ''2024-01-15''"
  "format_date (unix 1705312800) = ''2024-01-15''"
  by code_simp+

lemma messages_path:
  "Join (MessagesDir ex_cfg) (''2024-01-15'' @ ''.md'') = ''/data/messages/2024-01-15.md''"
  by (simp add: ex_cfg_def path_eval del: split_sep.simps(2))

lemma morning_content:
  "date_file_content ''2024-01-15''
     (userMessagesByDate [ex_message 1 1 0 ''user'' 1705309200] ''2024-01-15'') []
     = morning_block"
  by (simp add: date_file_content_def userMessagesByDate_def message_block_def ex_message_def
      ex_clocks morning_block_def)

lemma later_content:
  "date_file_content ''2024-01-15''
     (userMessagesByDate [ex_message 7 2 0 ''user'' 1705312800] ''2024-01-15'') morning_block
     = later_block @ ''\<newline>\<newline>'' @ morning_block"
  by (simp add: date_file_content_def userMessagesByDate_def message_block_def ex_message_def
      ex_clocks later_block_def) (simp add: morning_block_def)

text \<open>
  Claim C10, evaluated where the code departs from it. A first conversation
  contributes a user message of 09:00:00 to the file of 2024-01-15, a second one a
  user message of 10:00:00. The second call does not append: it writes its block first
  and the former content after it, so the file lists 10:00:00 before 09:00:00.
\<close>

theorem new_block_precedes_old_content:
  "snd (extractUserMessagesByDate ex_cfg (\<lambda>p. True) [''2024-01-15'']
          [ex_message 1 1 0 ''user'' 1705309200] Map.empty) ''/data/messages/2024-01-15.md''
     = Some morning_block
   \<and> snd (extractUserMessagesByDate ex_cfg (\<lambda>p. True) [''2024-01-15'']
          [ex_message 7 2 0 ''user'' 1705312800]
          (snd (extractUserMessagesByDate ex_cfg (\<lambda>p. True) [''2024-01-15'']
                  [ex_message 1 1 0 ''user'' 1705309200] Map.empty)))
        ''/data/messages/2024-01-15.md''
     = Some (later_block @ ''\<newline>\<newline>'' @ morning_block)"
proof -
  have 1: "extractUserMessagesByDate ex_cfg (\<lambda>p. True) [''2024-01-15'']
             [ex_message 1 1 0 ''user'' 1705309200] Map.empty
           = (True, [''/data/messages/2024-01-15.md'' \<mapsto> morning_block])"
    unfolding extractUserMessagesByDate_def write_date_files.simps Let_def messages_path
    using morning_content by simp
  have 2: "extractUserMessagesByDate ex_cfg (\<lambda>p. True) [''2024-01-15'']
             [ex_message 7 2 0 ''user'' 1705312800]
             [''/data/messages/2024-01-15.md'' \<mapsto> morning_block]
           = (True, [''/data/messages/2024-01-15.md''
                       \<mapsto> later_block @ ''\<newline>\<newline>'' @ morning_block])"
    unfolding extractUserMessagesByDate_def write_date_files.simps Let_def messages_path
    using later_content by simp
  show ?thesis
    unfolding 1 snd_conv 2 by simp
qed

end
